theory Spec2Isabelle
  imports Main
begin

section \<open>Python values and exceptions\<close>

text \<open>
  The exporter handles decoded JSON payloads, which Python types dynamically. A payload
  is a value of \<open>json\<close>; an operation applied to a value of the wrong shape raises, and
  the exception is a value of \<open>exn\<close>. Every constructor of \<open>exn\<close> stands for a subclass
  of Python's \<open>Exception\<close>, that is, for something an \<open>except Exception\<close> clause catches;
  \<open>RaisedBy\<close> is any exception of a collaborator, named by its source. A keyboard
  interrupt is no such exception and is not part of the model. Strings are byte strings
  in UTF-8; all characters the code inspects are ASCII.
\<close>

datatype json =
    JNull
  | JBool bool
  | JInt int
  | JStr string
  | JList "json list"
  | JDict "(string \<times> json) list"

datatype exn =
    TypeError
  | AttributeError
  | KeyError
  | ValueError
  | OSError
  | HTTPError
  | RecursionError
  | UnicodeEncodeError
  | BrokenPipeError
  | RaisedBy string

section \<open>String helpers of the Python library\<close>

text \<open>\<open>s.split(c)\<close> for a one-character separator: the result is never empty.\<close>

fun py_split :: "char \<Rightarrow> string \<Rightarrow> string list" where
  "py_split c [] = [] # []"
| "py_split c (x # xs) =
     (if x = c then [] # py_split c xs
      else (case py_split c xs of
              [] \<Rightarrow> [x] # []
            | p # ps \<Rightarrow> (x # p) # ps))"

text \<open>\<open>s.strip(c)\<close> for a one-character set.\<close>

definition py_strip :: "char \<Rightarrow> string \<Rightarrow> string" where
  "py_strip c s = rev (dropWhile (\<lambda>x. x = c) (rev (dropWhile (\<lambda>x. x = c) s)))"

section \<open>sanitize_filename\<close>

text \<open>The character class of the regular expression \<^verbatim>\<open>[\\/*?:"<>|]\<close>.\<close>

definition reserved_chars :: "char list" where
  "reserved_chars =
     [CHR 0x5C, CHR ''/'', CHR ''*'', CHR ''?'', CHR '':'', CHR 0x22,
      CHR ''<'', CHR ''>'', CHR ''|'']"

text \<open>\<open>re.sub(r'[\\/*?:"<>|]', '', filename)\<close>: every match is replaced by nothing.\<close>

definition sanitize_filename :: "string \<Rightarrow> string" where
  "sanitize_filename filename = filter (\<lambda>c. c \<notin> set reserved_chars) filename"

section \<open>Links\<close>

text \<open>
  \<open>urllib.parse.urlparse\<close> is library code. The model follows its generic syntax
  \<open>scheme://netloc/path;params?query#fragment\<close>: the scheme is split off at the first
  colon when everything before it is a scheme character, the network location runs from
  \<open>//\<close> to the next \<open>/\<close>, \<open>?\<close> or \<open>#\<close>, an unbalanced bracket in it raises
  \<open>ValueError\<close>, then fragment, query and the parameters of the last segment are cut off.
  Before that the library strips the control characters and spaces the link starts with
  and removes every tab, carriage return and line feed. Its two further checks of the
  network location, that a host in brackets is an IPv6 or IPvFuture address and that a
  non-ASCII host normalizes to no delimiter, raise \<open>ValueError\<close> as well; they are left
  out, so the model parses some links that the library refuses.
\<close>

record parsed_url =
  url_scheme :: string
  url_netloc :: string
  url_path :: string
  url_params :: string
  url_query :: string
  url_fragment :: string

definition is_alpha :: "char \<Rightarrow> bool" where
  "is_alpha c = (let n = (of_char c :: nat) in (65 \<le> n \<and> n \<le> 90) \<or> (97 \<le> n \<and> n \<le> 122))"

definition is_scheme_char :: "char \<Rightarrow> bool" where
  "is_scheme_char c =
     (let n = (of_char c :: nat)
      in is_alpha c \<or> (48 \<le> n \<and> n \<le> 57) \<or> c \<in> set ''+-.'')"

definition lower_char :: "char \<Rightarrow> char" where
  "lower_char c =
     (let n = (of_char c :: nat) in if 65 \<le> n \<and> n \<le> 90 then char_of (n + 32) else c)"

text \<open>\<open>s.split(c, 1)\<close> as the pair of what precedes and what follows the first \<open>c\<close>.\<close>

definition split_once :: "char \<Rightarrow> string \<Rightarrow> string \<times> string" where
  "split_once c s = (takeWhile (\<lambda>x. x \<noteq> c) s, drop 1 (dropWhile (\<lambda>x. x \<noteq> c) s))"

definition split_scheme :: "string \<Rightarrow> string \<times> string" where
  "split_scheme url =
     (let pre = takeWhile (\<lambda>x. x \<noteq> CHR '':'') url
      in if CHR '':'' \<in> set url \<and> pre \<noteq> [] \<and> is_alpha (hd pre) \<and> list_all is_scheme_char pre
         then (map lower_char pre, drop (Suc (length pre)) url)
         else ([], url))"

definition split_netloc :: "string \<Rightarrow> string \<times> string" where
  "split_netloc url =
     (if take 2 url = ''//''
      then (takeWhile (\<lambda>x. x \<notin> set ''/?#'') (drop 2 url),
            dropWhile (\<lambda>x. x \<notin> set ''/?#'') (drop 2 url))
      else ([], url))"

definition uses_params :: "string list" where
  "uses_params = ['''', ''ftp'', ''hdl'', ''prospero'', ''http'', ''imap'', ''https'',
     ''shttp'', ''rtsp'', ''rtspu'', ''sip'', ''sips'', ''mms'', ''sftp'', ''tel'']"

text \<open>The parameters start at the first \<open>;\<close> of the last path segment.\<close>

definition split_params :: "string \<Rightarrow> string \<times> string" where
  "split_params url =
     (let last_seg = rev (takeWhile (\<lambda>x. x \<noteq> CHR ''/'') (rev url));
          front = take (length url - length last_seg) url;
          (seg, params) = split_once CHR '';'' last_seg
      in (front @ seg, params))"

text \<open>
  \<open>url.lstrip(_WHATWG_C0_CONTROL_OR_SPACE)\<close>, then the removal of the characters of
  \<open>_UNSAFE_URL_BYTES_TO_REMOVE\<close>.
\<close>

definition clean_url :: "string \<Rightarrow> string" where
  "clean_url url =
     filter (\<lambda>c. c \<notin> {CHR 0x09, CHR 0x0D, CHR 0x0A})
       (dropWhile (\<lambda>c. (of_char c :: nat) \<le> 32) url)"

definition urlparse :: "string \<Rightarrow> exn + parsed_url" where
  "urlparse link =
     (let (scheme, url1) = split_scheme (clean_url link);
          (netloc, url2) = split_netloc url1
      in if (CHR ''['' \<in> set netloc) \<noteq> (CHR '']'' \<in> set netloc) then Inl ValueError
         else
           let (url3, fragment) = split_once CHR ''#'' url2;
               (url4, query) = split_once CHR ''?'' url3;
               (url5, params) =
                 (if scheme \<in> set uses_params \<and> CHR '';'' \<in> set url4
                  then split_params url4 else (url4, []))
           in Inr \<lparr>url_scheme = scheme, url_netloc = netloc, url_path = url5,
                   url_params = params, url_query = query, url_fragment = fragment\<rparr>)"

section \<open>extract_id_from_link and get_domain_from_link\<close>

text \<open>
  The result \<open>None\<close> is Python's \<open>None\<close>. What \<open>extract_id_from_link\<close> does with the
  parsed path is \<open>id_of_path\<close>.
\<close>

definition id_of_path :: "string \<Rightarrow> string option" where
  "id_of_path p =
     (let path = py_strip CHR ''/'' p;
          parts = py_split CHR ''/'' path
      in if parts = [] then None
         else
           let potential_id = last parts;
               potential_id = hd (py_split CHR ''#'' potential_id)
           in Some potential_id)"

definition extract_id_from_link :: "string \<Rightarrow> exn + string option" where
  "extract_id_from_link link =
     (case urlparse link of
        Inl e \<Rightarrow> Inl e
      | Inr parsed_url \<Rightarrow> Inr (id_of_path (url_path parsed_url)))"

definition get_domain_from_link :: "string \<Rightarrow> exn + string" where
  "get_domain_from_link link =
     (case urlparse link of
        Inl e \<Rightarrow> Inl e
      | Inr parsed_url \<Rightarrow> Inr (url_netloc parsed_url))"

text \<open>Python's truth value of the extracted id, as \<open>if not folder_id\<close> reads it.\<close>

definition id_truthy :: "string option \<Rightarrow> bool" where
  "id_truthy r = (case r of None \<Rightarrow> False | Some s \<Rightarrow> s \<noteq> [])"

section \<open>Operations on payloads\<close>

text \<open>
  A \<open>JDict\<close> is read through \<open>map_of\<close>; \<open>JInt\<close> stands for any JSON number. Each
  operation raises what Python raises on a value of the wrong type.
\<close>

fun is_substring :: "string \<Rightarrow> string \<Rightarrow> bool" where
  "is_substring p [] = (p = [])"
| "is_substring p (x # xs) = (take (length p) (x # xs) = p \<or> is_substring p xs)"

text \<open>\<open>key in v\<close>\<close>

fun py_contains :: "string \<Rightarrow> json \<Rightarrow> exn + bool" where
  "py_contains key (JDict kvs) = Inr (key \<in> fst ` set kvs)"
| "py_contains key (JList xs) = Inr (JStr key \<in> set xs)"
| "py_contains key (JStr s) = Inr (is_substring key s)"
| "py_contains key _ = Inl TypeError"

text \<open>\<open>v[key]\<close> for a string \<open>key\<close>\<close>

fun py_subscript :: "json \<Rightarrow> string \<Rightarrow> exn + json" where
  "py_subscript (JDict kvs) key =
     (case map_of kvs key of None \<Rightarrow> Inl KeyError | Some x \<Rightarrow> Inr x)"
| "py_subscript _ key = Inl TypeError"

text \<open>\<open>v.get(key, default)\<close>; \<open>v.get(key)\<close> is \<open>py_get v key JNull\<close>.\<close>

fun py_get :: "json \<Rightarrow> string \<Rightarrow> json \<Rightarrow> exn + json" where
  "py_get (JDict kvs) key dflt =
     (case map_of kvs key of None \<Rightarrow> Inr dflt | Some x \<Rightarrow> Inr x)"
| "py_get _ key dflt = Inl AttributeError"

text \<open>The truth value of \<open>if v:\<close>\<close>

fun py_truthy :: "json \<Rightarrow> bool" where
  "py_truthy JNull = False"
| "py_truthy (JBool b) = b"
| "py_truthy (JInt n) = (n \<noteq> 0)"
| "py_truthy (JStr s) = (s \<noteq> [])"
| "py_truthy (JList xs) = (xs \<noteq> [])"
| "py_truthy (JDict kvs) = (kvs \<noteq> [])"

text \<open>
  The items \<open>for x in v\<close> visits, which are also what \<open>len(v)\<close> counts: the elements of
  a list, the keys of a dict, the characters of a string (here its bytes, which are its
  characters when the string is ASCII).
\<close>

fun py_iter :: "json \<Rightarrow> exn + json list" where
  "py_iter (JList xs) = Inr xs"
| "py_iter (JDict kvs) = Inr (map JStr (remdups (map fst kvs)))"
| "py_iter (JStr s) = Inr (map (\<lambda>c. JStr [c]) s)"
| "py_iter _ = Inl TypeError"

text \<open>\<open>sanitize_filename\<close> applied to a payload value: \<open>re.sub\<close> wants a string.\<close>

fun sanitize_value :: "json \<Rightarrow> exn + string" where
  "sanitize_value (JStr s) = Inr (sanitize_filename s)"
| "sanitize_value _ = Inl TypeError"

text \<open>\<open>os.path.join(a, b)\<close> of \<open>posixpath\<close>\<close>

definition path_join :: "string \<Rightarrow> string \<Rightarrow> string" where
  "path_join a b =
     (if b \<noteq> [] \<and> hd b = CHR ''/'' then b
      else if a = [] \<or> last a = CHR ''/'' then a @ b
      else a @ ''/'' @ b)"

section \<open>The world: file system, console, clock\<close>

text \<open>
  What the program prints is kept as a structured message, one constructor per
  \<open>print\<close> statement, with the values the f-string interpolates.
\<close>

datatype msg =
    Error_downloading_attachment exn
  | Error_accessing_document json json
  | Extracted_DOCX string
  | Failed_to_download_DOCX string int
  | Extracted_HTML_instead string
  | Downloaded_attachment string
  | Error_processing_document json exn
  | Error_accessing_folder nat json json
  | DEBUG_Folder_structure json
  | Processing_folder nat string
  | Found_in string nat
  | Processing_document nat nat nat
  | Completed_folder nat string nat
  | Error_processing_folder json exn
  | Failed_to_extract_folder_ID
  | The_link_provided_was string
  | Please_make_sure
  | Starting_extraction string
  | Files_will_be_saved_to string
  | Extraction_completed
  | Extraction_failed exn

text \<open>
  An event is one effect on the outside: a line printed, a pause, a directory made, a
  file written with the content it ends up with, a request sent to a URL. \<open>Sleep d\<close> is
  the \<open>time.sleep(0.5)\<close> of the walk running at depth \<open>d\<close>.
\<close>

datatype url =
    Export_docx_url string json
  | Blob_url json

datatype event =
    Print msg
  | Sleep nat
  | Makedirs string
  | File_written string string
  | Requests_get url

record world =
  dirs :: "string set"
  files :: "string \<rightharpoonup> string"
  trace :: "event list"

record response =
  status_code :: int
  content :: string

text \<open>
  The collaborators: the Quip client with its two fetch operations and its two
  attributes, \<open>requests.get\<close>, the operating system, which may refuse to create or
  open a path (\<open>os_error\<close> gives the exception it raises then), and the console, which
  may refuse a line (\<open>console_error\<close> gives the exception that formatting and printing
  the line raises then: \<open>UnicodeEncodeError\<close> for a character that the encoding of the
  console lacks, \<open>BrokenPipeError\<close> when the standard output is closed). A request
  carries the bearer token of its \<open>Authorization\<close> header, if it has one. All of them
  are functions of their arguments: the remote store answers a request in the same way
  each time, and whether the system refuses a path or the console a line does not change
  while the program runs.
\<close>

record env =
  get_thread :: "json \<Rightarrow> exn + json"
  get_folder :: "json \<Rightarrow> exn + json"
  base_url :: string
  access_token :: string
  requests_get :: "url \<Rightarrow> string option \<Rightarrow> exn + response"
  os_error :: "string \<Rightarrow> exn option"
  console_error :: "msg \<Rightarrow> exn option"

text \<open>A call either returns a value or raises; both leave a world behind.\<close>

datatype 'a outcome =
    Return 'a world
  | Raise exn world

text \<open>
  An event happens: it is added to the trace, a directory made joins \<open>dirs\<close>, a file
  written gets its content in \<open>files\<close>, replacing what was there. The file system knows
  a path by its spelling, and of the directories that \<open>os.makedirs\<close> creates it records
  the one it was asked for.
\<close>

definition emit :: "event \<Rightarrow> world \<Rightarrow> world" where
  "emit ev w =
     (case ev of
        Makedirs p \<Rightarrow> w\<lparr>dirs := insert p (dirs w), trace := trace w @ [ev]\<rparr>
      | File_written p s \<Rightarrow> w\<lparr>files := (files w)(p \<mapsto> s), trace := trace w @ [ev]\<rparr>
      | _ \<Rightarrow> w\<lparr>trace := trace w @ [ev]\<rparr>)"

text \<open>
  \<open>print(line)\<close> raises when the console refuses the line, and nothing is printed then;
  otherwise the line is on the console, which is the world \<open>printed m w\<close>.
\<close>

definition printed :: "msg \<Rightarrow> world \<Rightarrow> world" where
  "printed m w = emit (Print m) w"

definition print :: "env \<Rightarrow> msg \<Rightarrow> world \<Rightarrow> unit outcome" where
  "print E m w =
     (case console_error E m of
        Some e \<Rightarrow> Raise e w
      | None \<Rightarrow> Return () (printed m w))"

definition path_exists :: "world \<Rightarrow> string \<Rightarrow> bool" where
  "path_exists w p = (p \<in> dirs w \<or> p \<in> dom (files w))"

text \<open>\<open>os.makedirs(path)\<close>\<close>

definition makedirs :: "env \<Rightarrow> string \<Rightarrow> world \<Rightarrow> unit outcome" where
  "makedirs E p w =
     (case os_error E p of
        Some e \<Rightarrow> Raise e w
      | None \<Rightarrow> Return () (emit (Makedirs p) w))"

text \<open>
  \<open>with open(path, mode) as f: f.write(data)\<close>: opening creates or empties the file
  unless the system refuses; writing a value that is not a string raises after that.
  Whether the system refuses depends on the path alone, so a path that is a directory
  is refused only if \<open>os_error\<close> refuses it.
\<close>

definition write_file :: "env \<Rightarrow> string \<Rightarrow> json \<Rightarrow> world \<Rightarrow> unit outcome" where
  "write_file E p data w =
     (case os_error E p of
        Some e \<Rightarrow> Raise e w
      | None \<Rightarrow>
          (case data of
             JStr s \<Rightarrow> Return () (emit (File_written p s) w)
           | _ \<Rightarrow> Raise TypeError (emit (File_written p []) w)))"

section \<open>create_directory_if_not_exists\<close>

definition create_directory_if_not_exists :: "env \<Rightarrow> string \<Rightarrow> world \<Rightarrow> unit outcome" where
  "create_directory_if_not_exists E p w =
     (if \<not> path_exists w p then makedirs E p w else Return () w)"

section \<open>download_blob\<close>

text \<open>\<open>response.raise_for_status()\<close> raises for the statuses 400 to 599.\<close>

definition raises_for_status :: "response \<Rightarrow> bool" where
  "raises_for_status r = (400 \<le> status_code r \<and> status_code r < 600)"

text \<open>The body of the \<open>try\<close>.\<close>

definition download_blob_try :: "env \<Rightarrow> json \<Rightarrow> string \<Rightarrow> world \<Rightarrow> bool outcome" where
  "download_blob_try E url file_path w =
     (let w1 = emit (Requests_get (Blob_url url)) w
      in case requests_get E (Blob_url url) None of
           Inl e \<Rightarrow> Raise e w1
         | Inr response \<Rightarrow>
             if raises_for_status response then Raise HTTPError w1
             else (case write_file E file_path (JStr (content response)) w1 of
                     Raise e w2 \<Rightarrow> Raise e w2
                   | Return _ w2 \<Rightarrow> Return True w2))"

text \<open>
  The handler prints and returns \<open>False\<close>; its \<open>print\<close> is in no \<open>try\<close>, so what it
  raises reaches the caller.
\<close>

definition download_blob :: "env \<Rightarrow> json \<Rightarrow> string \<Rightarrow> world \<Rightarrow> bool outcome" where
  "download_blob E url file_path w =
     (case download_blob_try E url file_path w of
        Return b w1 \<Rightarrow> Return b w1
      | Raise e w1 \<Rightarrow>
          (case print E (Error_downloading_attachment e) w1 of
             Raise e' w2 \<Rightarrow> Raise e' w2
           | Return _ w2 \<Rightarrow> Return False w2))"

section \<open>process_thread\<close>

text \<open>
  Lines 75 to 96: the request for the DOCX export, the file written from it on status
  200, and otherwise the fallback to the markup under \<open>html\<close>.
\<close>

definition export_document ::
  "env \<Rightarrow> json \<Rightarrow> json \<Rightarrow> string \<Rightarrow> string \<Rightarrow> world \<Rightarrow> unit outcome" where
  "export_document E thread_id thread_data thread_title current_path w =
     (let export_url = Export_docx_url (base_url E) thread_id;
          docx_path = path_join current_path (thread_title @ ''.docx'');
          w1 = emit (Requests_get export_url) w
      in (case requests_get E export_url (Some (access_token E)) of
            Inl e \<Rightarrow> Raise e w1
          | Inr response \<Rightarrow>
              if status_code response = 200 then
                (case write_file E docx_path (JStr (content response)) w1 of
                   Raise e w2 \<Rightarrow> Raise e w2
                 | Return _ w2 \<Rightarrow> print E (Extracted_DOCX docx_path) w2)
              else
                (case print E (Failed_to_download_DOCX thread_title (status_code response)) w1 of
                   Raise e w2 \<Rightarrow> Raise e w2
                 | Return _ w2 \<Rightarrow>
                     (let html_path = path_join current_path (thread_title @ ''.html'')
                      in (case py_get thread_data ''html'' JNull of
                            Inl e \<Rightarrow> Raise e w2
                          | Inr html \<Rightarrow>
                              if py_truthy html then
                                (case write_file E html_path html w2 of
                                   Raise e w3 \<Rightarrow> Raise e w3
                                 | Return _ w3 \<Rightarrow>
                                     print E (Extracted_HTML_instead html_path) w3)
                              else Return () w2)))))"

text \<open>Lines 104 to 111: the loop over the blobs.\<close>

fun download_blobs :: "env \<Rightarrow> string \<Rightarrow> json list \<Rightarrow> world \<Rightarrow> unit outcome" where
  "download_blobs E attachments_path [] w = Return () w"
| "download_blobs E attachments_path (blob # rest) w =
     (case py_get blob ''url'' JNull of
        Inl e \<Rightarrow> Raise e w
      | Inr blob_url \<Rightarrow>
          (case py_get blob ''name'' (JStr ''Unknown_Attachment'') of
             Inl e \<Rightarrow> Raise e w
           | Inr name \<Rightarrow>
               (case sanitize_value name of
                  Inl e \<Rightarrow> Raise e w
                | Inr blob_name \<Rightarrow>
                    let blob_path = path_join attachments_path blob_name
                    in if py_truthy blob_url then
                         (case download_blob E blob_url blob_path w of
                            Raise e w1 \<Rightarrow> Raise e w1
                          | Return ok w1 \<Rightarrow>
                              if ok then
                                (case print E (Downloaded_attachment blob_path) w1 of
                                   Raise e w2 \<Rightarrow> Raise e w2
                                 | Return _ w2 \<Rightarrow> download_blobs E attachments_path rest w2)
                              else download_blobs E attachments_path rest w1)
                       else download_blobs E attachments_path rest w)))"

text \<open>Lines 97 to 111.\<close>

definition download_attachments ::
  "env \<Rightarrow> json \<Rightarrow> string \<Rightarrow> string \<Rightarrow> world \<Rightarrow> unit outcome" where
  "download_attachments E thread_data thread_title current_path w =
     (case py_get thread_data ''blobs'' (JList []) of
        Inl e \<Rightarrow> Raise e w
      | Inr blobs \<Rightarrow>
          if py_truthy blobs then
            let attachments_path = path_join current_path (thread_title @ ''_attachments'')
            in case create_directory_if_not_exists E attachments_path w of
                 Raise e w1 \<Rightarrow> Raise e w1
               | Return _ w1 \<Rightarrow>
                   (case py_iter blobs of
                      Inl e \<Rightarrow> Raise e w1
                    | Inr bs \<Rightarrow> download_blobs E attachments_path bs w1)
          else Return () w)"

text \<open>Lines 72 and 73: the title of the document, sanitized.\<close>

definition thread_title_of :: "json \<Rightarrow> exn + string" where
  "thread_title_of thread_data =
     (case py_get thread_data ''thread'' (JDict []) of
        Inl e \<Rightarrow> Inl e
      | Inr thread \<Rightarrow>
          (case py_get thread ''title'' (JStr ''Unknown_Document'') of
             Inl e \<Rightarrow> Inl e
           | Inr title \<Rightarrow> sanitize_value title))"

text \<open>The body of the \<open>try\<close> of \<open>process_thread\<close>.\<close>

definition process_thread_try :: "env \<Rightarrow> json \<Rightarrow> string \<Rightarrow> world \<Rightarrow> unit outcome" where
  "process_thread_try E thread_id current_path w =
     (case get_thread E thread_id of
        Inl e \<Rightarrow> Raise e w
      | Inr thread_data \<Rightarrow>
          (case py_contains ''error'' thread_data of
             Inl e \<Rightarrow> Raise e w
           | Inr True \<Rightarrow>
               (case py_subscript thread_data ''error'' of
                  Inl e \<Rightarrow> Raise e w
                | Inr err \<Rightarrow> print E (Error_accessing_document thread_id err) w)
           | Inr False \<Rightarrow>
               (case thread_title_of thread_data of
                  Inl e \<Rightarrow> Raise e w
                | Inr thread_title \<Rightarrow>
                    (case export_document E thread_id thread_data thread_title current_path w of
                       Raise e w1 \<Rightarrow> Raise e w1
                     | Return _ w1 \<Rightarrow>
                         download_attachments E thread_data thread_title current_path w1))))"

text \<open>
  The \<open>except Exception\<close> clause of line 113 catches what the body raises and prints
  it; the \<open>print\<close> of line 114 is in no \<open>try\<close>, so what it raises reaches the caller.
\<close>

definition process_thread :: "env \<Rightarrow> json \<Rightarrow> string \<Rightarrow> world \<Rightarrow> unit outcome" where
  "process_thread E thread_id current_path w =
     (case process_thread_try E thread_id current_path w of
        Return u w1 \<Rightarrow> Return u w1
      | Raise e w1 \<Rightarrow> print E (Error_processing_document thread_id e) w1)"

section \<open>process_folder\<close>

text \<open>
  Lines 121 to 151, up to the loop: the folder is fetched, an error payload ends the
  walk of this folder (result \<open>None\<close>), otherwise the directory is made and the
  children are found. \<open>len(children)\<close> and the loop read the same items.
\<close>

definition folder_title_of :: "json \<Rightarrow> exn + string" where
  "folder_title_of folder =
     (case py_get folder ''folder'' (JDict []) of
        Inl e \<Rightarrow> Inl e
      | Inr f \<Rightarrow>
          (case py_get f ''title'' (JStr ''Unknown_Folder'') of
             Inl e \<Rightarrow> Inl e
           | Inr title \<Rightarrow> sanitize_value title))"

definition children_of :: "json \<Rightarrow> exn + json list" where
  "children_of folder =
     (case py_contains ''children'' folder of
        Inl e \<Rightarrow> Inl e
      | Inr True \<Rightarrow>
          (case py_subscript folder ''children'' of
             Inl e \<Rightarrow> Inl e
           | Inr children \<Rightarrow> py_iter children)
      | Inr False \<Rightarrow> Inr [])"

definition open_folder ::
  "env \<Rightarrow> json \<Rightarrow> string \<Rightarrow> nat \<Rightarrow> world \<Rightarrow> (string \<times> string \<times> json list) option outcome" where
  "open_folder E folder_id base_path depth w =
     (case get_folder E folder_id of
        Inl e \<Rightarrow> Raise e w
      | Inr folder \<Rightarrow>
          (case py_contains ''error'' folder of
             Inl e \<Rightarrow> Raise e w
           | Inr True \<Rightarrow>
               (case py_subscript folder ''error'' of
                  Inl e \<Rightarrow> Raise e w
                | Inr err \<Rightarrow>
                    (case print E (Error_accessing_folder depth folder_id err) w of
                       Raise e w1 \<Rightarrow> Raise e w1
                     | Return _ w1 \<Rightarrow> Return None w1))
           | Inr False \<Rightarrow>
               (case print E (DEBUG_Folder_structure folder) w of
                  Raise e w1 \<Rightarrow> Raise e w1
                | Return _ w1 \<Rightarrow>
                    (case folder_title_of folder of
                       Inl e \<Rightarrow> Raise e w1
                     | Inr folder_title \<Rightarrow>
                         (let current_path = path_join base_path folder_title
                          in (case create_directory_if_not_exists E current_path w1 of
                                Raise e w2 \<Rightarrow> Raise e w2
                              | Return _ w2 \<Rightarrow>
                                  (case print E (Processing_folder depth folder_title) w2 of
                                     Raise e w3 \<Rightarrow> Raise e w3
                                   | Return _ w3 \<Rightarrow>
                                       (case children_of folder of
                                          Inl e \<Rightarrow> Raise e w3
                                        | Inr children \<Rightarrow>
                                            (case print E (Found_in folder_title (length children))
                                                    w3 of
                                               Raise e w4 \<Rightarrow> Raise e w4
                                             | Return _ w4 \<Rightarrow>
                                                 Return
                                                   (Some (folder_title, current_path, children))
                                                   w4)))))))))"

text \<open>
  The \<open>except Exception\<close> clause of line 173; the \<open>print\<close> of line 174 is in no
  \<open>try\<close>, so what it raises reaches the caller.
\<close>

definition catch_folder :: "env \<Rightarrow> json \<Rightarrow> unit outcome \<Rightarrow> unit outcome" where
  "catch_folder E folder_id r =
     (case r of
        Return u w \<Rightarrow> Return u w
      | Raise e w \<Rightarrow> print E (Error_processing_folder folder_id e) w)"

text \<open>
  The walk recurses along the remote hierarchy, which nothing in the code bounds; the
  interpreter does, by its recursion limit. The first argument is the room left on its
  stack, counted in nested walks: with none left the call of \<open>process_folder\<close> raises
  \<open>RecursionError\<close>, in the \<open>try\<close> of the walk that made it. A walk that has room is
  taken to have room for the other calls of its body; when one of them fails for lack of
  it, that is an exception of the collaborator called. \<open>process_children\<close> is the loop
  of lines 156 to 169 over the children that remain, with the counter
  \<open>processed_items\<close>.
\<close>

fun process_folder ::
    "nat \<Rightarrow> env \<Rightarrow> json \<Rightarrow> string \<Rightarrow> nat \<Rightarrow> world \<Rightarrow> unit outcome"
  and process_children ::
    "nat \<Rightarrow> env \<Rightarrow> string \<Rightarrow> nat \<Rightarrow> nat \<Rightarrow> nat \<Rightarrow> json list \<Rightarrow> world \<Rightarrow> unit outcome"
where
  "process_folder 0 E folder_id base_path depth w = Raise RecursionError w"
| "process_folder (Suc n) E folder_id base_path depth w =
     catch_folder E folder_id
       (case open_folder E folder_id base_path depth w of
          Raise e w1 \<Rightarrow> Raise e w1
        | Return None w1 \<Rightarrow> Return () w1
        | Return (Some (folder_title, current_path, children)) w1 \<Rightarrow>
            (case process_children n E current_path depth (length children) 0 children w1 of
               Raise e w2 \<Rightarrow> Raise e w2
             | Return _ w2 \<Rightarrow>
                 print E (Completed_folder depth folder_title (length children)) w2))"
| "process_children n E current_path depth total_items processed_items [] w = Return () w"
| "process_children n E current_path depth total_items processed_items (child # rest) w =
     (case py_contains ''thread_id'' child of
        Inl e \<Rightarrow> Raise e w
      | Inr True \<Rightarrow>
          (case print E (Processing_document depth (processed_items + 1) total_items) w of
             Raise e w1 \<Rightarrow> Raise e w1
           | Return _ w1 \<Rightarrow>
               (case py_subscript child ''thread_id'' of
                  Inl e \<Rightarrow> Raise e w1
                | Inr thread_id \<Rightarrow>
                    (case process_thread E thread_id current_path w1 of
                       Raise e w2 \<Rightarrow> Raise e w2
                     | Return _ w2 \<Rightarrow>
                         process_children n E current_path depth total_items
                           (processed_items + 1) rest (emit (Sleep depth) w2))))
      | Inr False \<Rightarrow>
          (case py_contains ''folder_id'' child of
             Inl e \<Rightarrow> Raise e w
           | Inr True \<Rightarrow>
               (case py_subscript child ''folder_id'' of
                  Inl e \<Rightarrow> Raise e w
                | Inr sub_id \<Rightarrow>
                    (case process_folder n E sub_id current_path (depth + 1) w of
                       Raise e w2 \<Rightarrow> Raise e w2
                     | Return _ w2 \<Rightarrow>
                         process_children n E current_path depth total_items
                           (processed_items + 1) rest (emit (Sleep depth) w2)))
           | Inr False \<Rightarrow>
               process_children n E current_path depth total_items (processed_items + 1)
                 rest (emit (Sleep depth) w)))"

section \<open>main, from the extraction of the folder id\<close>

text \<open>
  Lines 224 to 243. \<open>sys.exit(1)\<close> ends the run with \<open>Exited 1\<close>; an exception that
  nothing catches ends it with \<open>Crashed\<close>, which the interpreter reports with status 1
  as well. The first argument is the room on the stack when \<open>main\<close> calls
  \<open>process_folder\<close>.
\<close>

datatype main_result =
    Finished world
  | Exited int world
  | Crashed exn world

text \<open>Lines 227 to 230.\<close>

definition give_up :: "env \<Rightarrow> string \<Rightarrow> world \<Rightarrow> main_result" where
  "give_up E folder_link w =
     (case print E Failed_to_extract_folder_ID w of
        Raise e w1 \<Rightarrow> Crashed e w1
      | Return _ w1 \<Rightarrow>
          (case print E (The_link_provided_was folder_link) w1 of
             Raise e w2 \<Rightarrow> Crashed e w2
           | Return _ w2 \<Rightarrow>
               (case print E Please_make_sure w2 of
                  Raise e w3 \<Rightarrow> Crashed e w3
                | Return _ w3 \<Rightarrow> Exited 1 w3)))"

text \<open>Lines 237 to 243.\<close>

definition run_walk :: "nat \<Rightarrow> env \<Rightarrow> string \<Rightarrow> string \<Rightarrow> world \<Rightarrow> main_result" where
  "run_walk n E folder_id out_dir w =
     (case (case process_folder n E (JStr folder_id) out_dir 0 w of
              Raise e w1 \<Rightarrow> Raise e w1
            | Return _ w1 \<Rightarrow> print E Extraction_completed w1) of
        Return _ w2 \<Rightarrow> Finished w2
      | Raise e w2 \<Rightarrow>
          (case print E (Extraction_failed e) w2 of
             Raise e' w3 \<Rightarrow> Crashed e' w3
           | Return _ w3 \<Rightarrow> Finished w3))"

definition main_from_link :: "nat \<Rightarrow> env \<Rightarrow> string \<Rightarrow> string \<Rightarrow> world \<Rightarrow> main_result" where
  "main_from_link n E folder_link out_dir w =
     (case extract_id_from_link folder_link of
        Inl e \<Rightarrow> Crashed e w
      | Inr r \<Rightarrow>
          if \<not> id_truthy r then give_up E folder_link w
          else
            (case r of
               None \<Rightarrow> give_up E folder_link w
             | Some folder_id \<Rightarrow>
                 (case print E (Starting_extraction folder_id) w of
                    Raise e w1 \<Rightarrow> Crashed e w1
                  | Return _ w1 \<Rightarrow>
                      (case print E (Files_will_be_saved_to out_dir) w1 of
                         Raise e w2 \<Rightarrow> Crashed e w2
                       | Return _ w2 \<Rightarrow>
                           (case create_directory_if_not_exists E out_dir w2 of
                              Raise e w3 \<Rightarrow> Crashed e w3
                            | Return _ w3 \<Rightarrow> run_walk n E folder_id out_dir w3)))))"

section \<open>Reading outcomes and traces\<close>

definition world_of :: "'a outcome \<Rightarrow> world" where
  "world_of r = (case r of Return _ w \<Rightarrow> w | Raise _ w \<Rightarrow> w)"

text \<open>The events of a list happen one after the other.\<close>

definition replay :: "event list \<Rightarrow> world \<Rightarrow> world" where
  "replay evs w = foldl (\<lambda>v ev. emit ev v) w evs"

text \<open>The paths of the files written and of the directories made, in order.\<close>

fun written_paths :: "event list \<Rightarrow> string list" where
  "written_paths [] = []"
| "written_paths (File_written p s # evs) = p # written_paths evs"
| "written_paths (_ # evs) = written_paths evs"

fun made_dirs :: "event list \<Rightarrow> string list" where
  "made_dirs [] = []"
| "made_dirs (Makedirs p # evs) = p # made_dirs evs"
| "made_dirs (_ # evs) = made_dirs evs"

text \<open>The blob URLs requested, in order.\<close>

fun blob_requests :: "event list \<Rightarrow> json list" where
  "blob_requests [] = []"
| "blob_requests (Requests_get (Blob_url u) # evs) = u # blob_requests evs"
| "blob_requests (_ # evs) = blob_requests evs"

section \<open>A remote store for examples\<close>

text \<open>
  Folder \<open>F\<close> (title \<open>Top\<close>) holds a document whose fetch reports an error (\<open>T2\<close>), a
  sub-folder whose fetch reports an error (\<open>G\<close>), an entry of no known type, a
  document with fallback markup and two blobs, one without URL (\<open>T1\<close>), and a document
  with neither markup nor blobs (\<open>T3\<close>). Document \<open>T4\<close>, in no folder, has markup
  and two blobs without URL. The fetch of the document \<open>odd_id\<close>, whose id ends in
  the two bytes of the letter e with acute accent, reports an error; this id is the
  only text of the store outside ASCII. Every DOCX export answers 500, every blob
  download 200, the system refuses no path and the console no line.
\<close>

definition odd_id :: json where
  "odd_id = JStr [CHR ''T'', CHR 0xC3, CHR 0xA9]"

definition demo_thread :: "json \<Rightarrow> exn + json" where
  "demo_thread i =
     (if i = JStr ''T1'' then
        Inr (JDict [(''thread'', JDict [(''title'', JStr ''Doc:1'')]),
                    (''html'', JStr ''<p>hi</p>''),
                    (''blobs'', JList [JDict [(''name'', JStr ''a.png'')],
                                       JDict [(''url'', JStr ''u1''), (''name'', JStr ''b.png'')]])])
      else if i = JStr ''T2'' then Inr (JDict [(''error'', JStr ''nope'')])
      else if i = JStr ''T3'' then Inr (JDict [(''thread'', JDict [(''title'', JStr ''Notes'')])])
      else if i = JStr ''T4'' then
        Inr (JDict [(''thread'', JDict [(''title'', JStr ''Memo'')]),
                    (''html'', JStr ''<p>memo</p>''),
                    (''blobs'', JList [JDict [(''name'', JStr ''a.png'')], JDict []])])
      else if i = odd_id then Inr (JDict [(''error'', JStr ''gone'')])
      else Inl (RaisedBy ''quip''))"

definition demo_folder :: "json \<Rightarrow> exn + json" where
  "demo_folder i =
     (if i = JStr ''F'' then
        Inr (JDict [(''folder'', JDict [(''title'', JStr ''Top'')]),
                    (''children'', JList [JDict [(''thread_id'', JStr ''T2'')],
                                          JDict [(''folder_id'', JStr ''G'')],
                                          JDict [],
                                          JDict [(''thread_id'', JStr ''T1'')],
                                          JDict [(''thread_id'', JStr ''T3'')]])])
      else if i = JStr ''G'' then Inr (JDict [(''error'', JStr ''bad'')])
      else Inl (RaisedBy ''quip''))"

definition demo_requests :: "url \<Rightarrow> string option \<Rightarrow> exn + response" where
  "demo_requests u h =
     (case u of
        Export_docx_url b i \<Rightarrow> Inr \<lparr>status_code = 500, content = []\<rparr>
      | Blob_url v \<Rightarrow> Inr \<lparr>status_code = 200, content = ''PNG''\<rparr>)"

definition demo_env :: env where
  "demo_env =
     \<lparr>get_thread = demo_thread, get_folder = demo_folder,
      base_url = ''https://platform.host'', access_token = ''token'',
      requests_get = demo_requests, os_error = (\<lambda>p. None),
      console_error = (\<lambda>m. None)\<rparr>"

text \<open>The same store when no blob can be downloaded: every blob request raises.\<close>

definition offline_env :: env where
  "offline_env =
     demo_env\<lparr>requests_get :=
       (\<lambda>u h. case u of
                 Blob_url v \<Rightarrow> Inl (RaisedBy ''requests'')
               | Export_docx_url b i \<Rightarrow> demo_requests u h)\<rparr>"

text \<open>
  The same store behind a console whose encoding is ASCII: it refuses every line that
  shows the id \<open>odd_id\<close>. The line of line 128 shows it escaped, by \<open>json.dumps\<close>,
  and is accepted.
\<close>

definition narrow_console :: "msg \<Rightarrow> exn option" where
  "narrow_console m =
     (case m of
        Error_accessing_document i x \<Rightarrow> if i = odd_id then Some UnicodeEncodeError else None
      | Error_processing_document i e \<Rightarrow> if i = odd_id then Some UnicodeEncodeError else None
      | Error_accessing_folder d i x \<Rightarrow> if i = odd_id then Some UnicodeEncodeError else None
      | Error_processing_folder i e \<Rightarrow> if i = odd_id then Some UnicodeEncodeError else None
      | _ \<Rightarrow> None)"

definition narrow_env :: env where
  "narrow_env = demo_env\<lparr>console_error := narrow_console\<rparr>"

text \<open>The same store when the standard output is closed: every line is refused.\<close>

definition closed_env :: env where
  "closed_env = demo_env\<lparr>console_error := (\<lambda>m. Some BrokenPipeError)\<rparr>"

definition empty_world :: world where
  "empty_world = \<lparr>dirs = {}, files = Map.empty, trace = []\<rparr>"

section \<open>What a run may do to the world\<close>

text \<open>
  \<open>via K w w'\<close>: the world \<open>w'\<close> comes from \<open>w\<close> by events that all satisfy \<open>K\<close>.
  A set of events is \<open>quiet\<close> when printing and sending requests are in it.
\<close>

definition via :: "(event \<Rightarrow> bool) \<Rightarrow> world \<Rightarrow> world \<Rightarrow> bool" where
  "via K w w' = (\<exists>evs. w' = replay evs w \<and> list_all K evs)"

definition quiet :: "(event \<Rightarrow> bool) \<Rightarrow> bool" where
  "quiet K = ((\<forall>m. K (Print m)) \<and> (\<forall>u. K (Requests_get u)))"

text \<open>
  An event is allowed at depth \<open>d\<close> when it is not a pause of a walk above that depth
  and, if it makes a directory or writes a file, the system does not refuse the path.
\<close>

definition allowed :: "env \<Rightarrow> nat \<Rightarrow> event \<Rightarrow> bool" where
  "allowed E d ev =
     (case ev of
        Sleep k \<Rightarrow> d \<le> k
      | Makedirs p \<Rightarrow> os_error E p = None
      | File_written p s \<Rightarrow> os_error E p = None
      | _ \<Rightarrow> True)"

definition reaches :: "env \<Rightarrow> nat \<Rightarrow> world \<Rightarrow> world \<Rightarrow> bool" where
  "reaches E d w w' = via (allowed E d) w w'"

text \<open>\<open>inside dir p\<close>: the path \<open>p\<close> names an entry directly in the directory \<open>dir\<close>.\<close>

definition inside :: "string \<Rightarrow> string \<Rightarrow> bool" where
  "inside dir p =
     (take (Suc (length dir)) p = dir @ ''/'' \<and> CHR ''/'' \<notin> set (drop (Suc (length dir)) p))"

text \<open>
  The events of the attachment step of a document: it makes no directory but the
  attachments directory, writes only directly in it, and never pauses.
\<close>

definition attachment_event :: "string \<Rightarrow> event \<Rightarrow> bool" where
  "attachment_event attachments_path ev =
     (case ev of
        Sleep k \<Rightarrow> False
      | Makedirs p \<Rightarrow> p = attachments_path
      | File_written p s \<Rightarrow> inside attachments_path p
      | _ \<Rightarrow> True)"

text \<open>What \<open>path_join\<close> puts in front of a name that does not start with a slash.\<close>

definition dir_prefix :: "string \<Rightarrow> string" where
  "dir_prefix a = (if a = [] \<or> last a = CHR ''/'' then a else a @ ''/'')"

text \<open>
  Whether the download of a blob to a path succeeds: the request is answered, the status
  is no error status, and the system lets the file be written.
\<close>

definition download_ok :: "env \<Rightarrow> json \<Rightarrow> string \<Rightarrow> bool" where
  "download_ok E u p =
     (case requests_get E (Blob_url u) None of
        Inl e \<Rightarrow> False
      | Inr r \<Rightarrow> \<not> raises_for_status r \<and> os_error E p = None)"

text \<open>
  A blob without URL: a JSON object with no \<open>url\<close> key whose name, if it has one, is a
  string.
\<close>

definition lacks_url :: "json \<Rightarrow> bool" where
  "lacks_url blob =
     (case blob of
        JDict kvs \<Rightarrow>
          map_of kvs ''url'' = None \<and>
          (case map_of kvs ''name'' of
             None \<Rightarrow> True
           | Some name \<Rightarrow> (case sanitize_value name of Inl e \<Rightarrow> False | Inr s \<Rightarrow> True))
      | _ \<Rightarrow> False)"

section \<open>Two runs side by side\<close>

text \<open>
  \<open>sim E W V w v\<close> relates the world \<open>w\<close> of a first run, started in \<open>W\<close>, with the
  world \<open>v\<close> of a second run, started in \<open>V\<close>, at the same point of the program: both
  runs have written the same files over what was there, the second has kept its
  directories and made none the first has not, whatever exists in the first exists in the second, and a
  path the system refuses exists in both or in neither.
\<close>

definition sim :: "env \<Rightarrow> world \<Rightarrow> world \<Rightarrow> world \<Rightarrow> world \<Rightarrow> bool" where
  "sim E W V w v =
     ((\<exists>M. files w = files W ++ M \<and> files v = files V ++ M)
      \<and> dirs V \<subseteq> dirs v \<and> dirs v \<subseteq> dirs V \<union> dirs w
      \<and> (\<forall>p. path_exists w p \<longrightarrow> path_exists v p)
      \<and> (\<forall>p. os_error E p \<noteq> None \<longrightarrow> path_exists v p \<longrightarrow> path_exists w p))"

text \<open>Two outcomes agree: same kind, same value or exception, related worlds.\<close>

definition sim_out :: "env \<Rightarrow> world \<Rightarrow> world \<Rightarrow> 'a outcome \<Rightarrow> 'a outcome \<Rightarrow> bool" where
  "sim_out E W V r r' =
     (case r of
        Return x a \<Rightarrow> (case r' of Return y b \<Rightarrow> x = y \<and> sim E W V a b | Raise e b \<Rightarrow> False)
      | Raise e a \<Rightarrow> (case r' of Return y b \<Rightarrow> False | Raise e' b \<Rightarrow> e = e' \<and> sim E W V a b))"

definition main_world :: "main_result \<Rightarrow> world" where
  "main_world r = (case r of Finished w \<Rightarrow> w | Exited c w \<Rightarrow> w | Crashed e w \<Rightarrow> w)"

definition same_end :: "main_result \<Rightarrow> main_result \<Rightarrow> bool" where
  "same_end r r' =
     (case r of
        Finished w \<Rightarrow> (case r' of Finished v \<Rightarrow> True | _ \<Rightarrow> False)
      | Exited c w \<Rightarrow> (case r' of Exited c' v \<Rightarrow> c = c' | _ \<Rightarrow> False)
      | Crashed e w \<Rightarrow> (case r' of Crashed e' v \<Rightarrow> e = e' | _ \<Rightarrow> False))"

text \<open>Two runs of \<open>main\<close> agree: they end in the same way, in related worlds.\<close>

definition sim_main :: "env \<Rightarrow> world \<Rightarrow> world \<Rightarrow> main_result \<Rightarrow> main_result \<Rightarrow> bool" where
  "sim_main E W V r r' = (same_end r r' \<and> sim E W V (main_world r) (main_world r'))"

section \<open>Names and links\<close>

lemma py_split_nonempty: "py_split c s \<noteq> []"
  by (induction s) (auto split: list.splits)

lemma id_of_path_Some: "\<exists>i. id_of_path p = Some i"
  by (simp add: id_of_path_def Let_def py_split_nonempty)

lemma id_of_path_empty: "py_strip CHR ''/'' p = [] \<Longrightarrow> id_of_path p = Some []"
  by (simp add: id_of_path_def Let_def)

lemma urlparse_bare_host:
  "urlparse ''https://host'' =
     Inr \<lparr>url_scheme = ''https'', url_netloc = ''host'', url_path = [],
          url_params = [], url_query = [], url_fragment = []\<rparr>"
  by code_simp

lemma demo_link_id: "extract_id_from_link ''https://host/path/F'' = Inr (Some ''F'')"
  by code_simp

lemma extract_id_bare_host: "extract_id_from_link ''https://host'' = Inr (Some [])"
  by code_simp

lemma world_of_simps [simp]: "world_of (Return x w) = w" "world_of (Raise e w) = w"
  by (simp_all add: world_of_def)

lemma print_fs [simp]:
  "dirs (printed m w) = dirs w" "files (printed m w) = files w"
  "dirs (world_of (print E m w)) = dirs w" "files (world_of (print E m w)) = files w"
  by (simp_all add: print_def printed_def emit_def world_of_def split: option.splits)

lemma give_up_fs:
  "dirs (main_world (give_up E link w)) = dirs w"
  "files (main_world (give_up E link w)) = files w"
  by (simp_all add: give_up_def print_def main_world_def split: option.splits)

lemma give_up_accepted:
  assumes "console_error E Failed_to_extract_folder_ID = None"
    and "console_error E (The_link_provided_was link) = None"
    and "console_error E Please_make_sure = None"
  shows "give_up E link w =
           Exited 1 (printed Please_make_sure
             (printed (The_link_provided_was link) (printed Failed_to_extract_folder_ID w)))"
  using assms by (simp add: give_up_def print_def)

lemma give_up_fatal:
  "(\<exists>w'. give_up E link w = Exited 1 w') \<or> (\<exists>e w'. give_up E link w = Crashed e w')"
  by (simp add: give_up_def print_def split: option.splits)

lemma main_falsy:
  "extract_id_from_link link = Inr r \<Longrightarrow> \<not> id_truthy r
     \<Longrightarrow> main_from_link n E link out_dir w = give_up E link w"
  by (simp add: main_from_link_def)

lemma main_truthy_no_exit:
  "extract_id_from_link link = Inr r \<Longrightarrow> id_truthy r
     \<Longrightarrow> main_from_link n E link out_dir w \<noteq> Exited c w'"
  by (auto simp: main_from_link_def id_truthy_def run_walk_def
      split: option.splits outcome.splits)

text \<open>
  C7. For every title, the output of \<open>sanitize_filename\<close> contains none of the
  characters \<^verbatim>\<open>\ / * ? : " < > |\<close>, and a title that contains none of them is returned
  as it is. Nothing else is removed and nothing is moved: of a title
  \<open>front @ [c] @ back\<close> the character \<open>c\<close> is dropped when it is reserved and kept at
  its place otherwise, and the empty title stays empty. The function is total: it has a
  value for every title.
\<close>

theorem sanitize_filename_reserved:
  "set (sanitize_filename title) \<inter>
     {CHR 0x5C, CHR ''/'', CHR ''*'', CHR ''?'', CHR '':'', CHR 0x22,
      CHR ''<'', CHR ''>'', CHR ''|''} = {}
   \<and> (set title \<inter>
        {CHR 0x5C, CHR ''/'', CHR ''*'', CHR ''?'', CHR '':'', CHR 0x22,
         CHR ''<'', CHR ''>'', CHR ''|''} = {}
      \<longrightarrow> sanitize_filename title = title)
   \<and> sanitize_filename (front @ [c] @ back) =
       sanitize_filename front
       @ (if c \<in> {CHR 0x5C, CHR ''/'', CHR ''*'', CHR ''?'', CHR '':'', CHR 0x22,
                   CHR ''<'', CHR ''>'', CHR ''|''} then [] else [c])
       @ sanitize_filename back
   \<and> sanitize_filename [] = []"
proof (intro conjI)
  show "set (sanitize_filename title) \<inter>
     {CHR 0x5C, CHR ''/'', CHR ''*'', CHR ''?'', CHR '':'', CHR 0x22,
      CHR ''<'', CHR ''>'', CHR ''|''} = {}"
    by (auto simp: sanitize_filename_def reserved_chars_def)
next
  show "set title \<inter>
        {CHR 0x5C, CHR ''/'', CHR ''*'', CHR ''?'', CHR '':'', CHR 0x22,
         CHR ''<'', CHR ''>'', CHR ''|''} = {}
      \<longrightarrow> sanitize_filename title = title"
  proof
    assume clean: "set title \<inter>
        {CHR 0x5C, CHR ''/'', CHR ''*'', CHR ''?'', CHR '':'', CHR 0x22,
         CHR ''<'', CHR ''>'', CHR ''|''} = {}"
    have "\<forall>c \<in> set title. c \<notin> set reserved_chars"
      using clean by (auto simp: reserved_chars_def)
    then show "sanitize_filename title = title"
      by (simp add: sanitize_filename_def)
  qed
next
  have "set reserved_chars =
     {CHR 0x5C, CHR ''/'', CHR ''*'', CHR ''?'', CHR '':'', CHR 0x22,
      CHR ''<'', CHR ''>'', CHR ''|''}"
    by (simp add: reserved_chars_def)
  then show "sanitize_filename (front @ [c] @ back) =
       sanitize_filename front
       @ (if c \<in> {CHR 0x5C, CHR ''/'', CHR ''*'', CHR ''?'', CHR '':'', CHR 0x22,
                   CHR ''<'', CHR ''>'', CHR ''|''} then [] else [c])
       @ sanitize_filename back"
    by (simp add: sanitize_filename_def)
next
  show "sanitize_filename [] = []"
    by (simp add: sanitize_filename_def)
qed

theorem sanitize_filename_reserved_witness:
  "sanitize_filename ''Doc:1'' = ''Doc1''
   \<and> sanitize_filename (''a/b'' @ [CHR 0x5C] @ ''c*d?e:f'' @ [CHR 0x22] @ ''<g>h|i'') = ''abcdefghi''
   \<and> set ''Q3 plan'' \<inter>
       {CHR 0x5C, CHR ''/'', CHR ''*'', CHR ''?'', CHR '':'', CHR 0x22,
        CHR ''<'', CHR ''>'', CHR ''|''} = {}
   \<and> sanitize_filename ''Q3 plan'' = ''Q3 plan''"
proof -
  have doc: "sanitize_filename ''Doc'' = ''Doc''"
    using sanitize_filename_reserved [of "''Doc''"] by simp
  have one: "sanitize_filename ''1'' = ''1''"
    using sanitize_filename_reserved [of "''1''"] by simp
  have "sanitize_filename (''Doc'' @ [CHR '':''] @ ''1'') = ''Doc1''"
    using sanitize_filename_reserved [of "''Doc:1''" "''Doc''" "CHR '':''" "''1''"] doc one
    by simp
  moreover have "sanitize_filename (''a/b'' @ [CHR 0x5C] @ ''c*d?e:f'' @ [CHR 0x22] @ ''<g>h|i'') = ''abcdefghi''"
    by code_simp
  moreover have "set ''Q3 plan'' \<inter>
       {CHR 0x5C, CHR ''/'', CHR ''*'', CHR ''?'', CHR '':'', CHR 0x22,
        CHR ''<'', CHR ''>'', CHR ''|''} = {}
     \<and> sanitize_filename ''Q3 plan'' = ''Q3 plan''"
    using sanitize_filename_reserved [of "''Q3 plan''"] by simp
  ultimately show ?thesis
    by simp
qed

text \<open>
  C9. \<open>extract_id_from_link\<close> never returns \<open>None\<close>: \<open>split\<close> never yields the empty
  list, so the guard on \<open>parts\<close> is dead. A link whose path is empty yields the empty
  string as id, and \<open>main\<close> stops with status 1 exactly when the id returned is falsy:
  it then runs lines 227 to 230 (\<open>give_up\<close>), and with a truthy id it never exits.
  The exit is \<open>Exited 1\<close> after the three lines printed when the console accepts them.
\<close>

theorem extract_id_never_None:
  "extract_id_from_link link \<noteq> Inr None
   \<and> py_split CHR ''/'' s \<noteq> []
   \<and> (urlparse link = Inr u \<and> url_path u = [] \<longrightarrow> extract_id_from_link link = Inr (Some []))
   \<and> (extract_id_from_link link = Inr r
        \<and> console_error E Failed_to_extract_folder_ID = None
        \<and> console_error E (The_link_provided_was link) = None
        \<and> console_error E Please_make_sure = None \<longrightarrow>
        (main_from_link n E link out_dir w
           = Exited 1 (printed Please_make_sure
               (printed (The_link_provided_was link) (printed Failed_to_extract_folder_ID w))))
        = (\<not> id_truthy r))
   \<and> (extract_id_from_link link = Inr r \<longrightarrow>
        (\<not> id_truthy r \<longrightarrow> main_from_link n E link out_dir w = give_up E link w)
        \<and> (id_truthy r \<longrightarrow> (\<forall>c w'. main_from_link n E link out_dir w \<noteq> Exited c w')))"
proof (intro conjI impI allI)
  show "extract_id_from_link link \<noteq> Inr None"
    using id_of_path_Some by (auto simp: extract_id_from_link_def split: sum.splits)
  show "py_split CHR ''/'' s \<noteq> []"
    by (rule py_split_nonempty)
  show "extract_id_from_link link = Inr (Some [])"
    if "urlparse link = Inr u \<and> url_path u = []"
    using that by (simp add: extract_id_from_link_def id_of_path_def py_strip_def)
  show "(main_from_link n E link out_dir w
           = Exited 1 (printed Please_make_sure
               (printed (The_link_provided_was link) (printed Failed_to_extract_folder_ID w))))
        = (\<not> id_truthy r)"
    if "extract_id_from_link link = Inr r
        \<and> console_error E Failed_to_extract_folder_ID = None
        \<and> console_error E (The_link_provided_was link) = None
        \<and> console_error E Please_make_sure = None"
  proof (cases "id_truthy r")
    case True
    then show ?thesis
      using that main_truthy_no_exit [of link r n E out_dir w] by simp
  next
    case False
    then show ?thesis
      using that main_falsy [of link r n E out_dir w] give_up_accepted [of E link w]
      by simp
  qed
  show "main_from_link n E link out_dir w = give_up E link w"
    if "extract_id_from_link link = Inr r" "\<not> id_truthy r"
    using that by (rule main_falsy)
  show "main_from_link n E link out_dir w \<noteq> Exited c w'"
    if "extract_id_from_link link = Inr r" "id_truthy r" for c w'
    using that by (rule main_truthy_no_exit)
qed

theorem extract_id_never_None_witness:
  "extract_id_from_link ''https://host'' = Inr (Some [])
   \<and> main_from_link 3 demo_env ''https://host'' ''out'' empty_world
       = Exited 1 (printed Please_make_sure
           (printed (The_link_provided_was ''https://host'')
              (printed Failed_to_extract_folder_ID empty_world)))
   \<and> main_from_link 3 demo_env ''https://host'' ''out'' empty_world
       = give_up demo_env ''https://host'' empty_world
   \<and> extract_id_from_link ''https://host/path/F'' = Inr (Some ''F'')
   \<and> (\<forall>c w'. main_from_link 3 demo_env ''https://host/path/F'' ''out'' empty_world
          \<noteq> Exited c w')"
proof -
  have parsed: "urlparse ''https://host'' =
     Inr \<lparr>url_scheme = ''https'', url_netloc = ''host'', url_path = [],
          url_params = [], url_query = [], url_fragment = []\<rparr> \<and>
     url_path \<lparr>url_scheme = ''https'', url_netloc = ''host'', url_path = [],
          url_params = [], url_query = [], url_fragment = []\<rparr> = []"
    using urlparse_bare_host by simp
  have id: "extract_id_from_link ''https://host'' = Inr (Some [])"
    using extract_id_never_None [of "''https://host''" s
        "\<lparr>url_scheme = ''https'', url_netloc = ''host'', url_path = [],
          url_params = [], url_query = [], url_fragment = []\<rparr>" "Some []"
        demo_env 3 "''out''" empty_world] parsed
    by blast
  have falsy: "\<not> id_truthy (Some [])"
    by (simp add: id_truthy_def)
  have console: "console_error demo_env Failed_to_extract_folder_ID = None"
    "console_error demo_env (The_link_provided_was ''https://host'') = None"
    "console_error demo_env Please_make_sure = None"
    by (simp_all add: demo_env_def)
  have stopped: "main_from_link 3 demo_env ''https://host'' ''out'' empty_world
       = Exited 1 (printed Please_make_sure
           (printed (The_link_provided_was ''https://host'')
              (printed Failed_to_extract_folder_ID empty_world)))
     \<and> main_from_link 3 demo_env ''https://host'' ''out'' empty_world
       = give_up demo_env ''https://host'' empty_world"
    using extract_id_never_None [of "''https://host''" s
        "\<lparr>url_scheme = ''https'', url_netloc = ''host'', url_path = [],
          url_params = [], url_query = [], url_fragment = []\<rparr>" "Some []"
        demo_env 3 "''out''" empty_world] id falsy console
    by blast
  have truthy: "id_truthy (Some ''F'')"
    by (simp add: id_truthy_def)
  have "\<forall>c w'. main_from_link 3 demo_env ''https://host/path/F'' ''out'' empty_world
      \<noteq> Exited c w'"
    using extract_id_never_None [of "''https://host/path/F''" s u "Some ''F''"
        demo_env 3 "''out''" empty_world] demo_link_id truthy
    by blast
  with id stopped demo_link_id show ?thesis
    by blast
qed

text \<open>
  C6, as the code has it. For the link \<^verbatim>\<open>https://host/path/ABC123#section\<close> the id is
  \<open>ABC123\<close> and the domain is \<open>host\<close>. For a link whose path has no segments,
  \<open>extract_id_from_link\<close> raises nothing: it returns the empty string, and \<open>main\<close> then
  prints the failure and exits with status 1 before anything is fetched or written.
  When the console refuses one of the three lines, its exception ends the run at that
  place; the end is fatal in either case, and nothing is written.
\<close>

theorem link_resolver_example_and_empty_path:
  "extract_id_from_link ''https://host/path/ABC123#section'' = Inr (Some ''ABC123'')
   \<and> get_domain_from_link ''https://host/path/ABC123#section'' = Inr ''host''
   \<and> (urlparse link = Inr u \<and> py_strip CHR ''/'' (url_path u) = [] \<longrightarrow>
        extract_id_from_link link = Inr (Some [])
        \<and> main_from_link n E link out_dir w = give_up E link w
        \<and> (console_error E Failed_to_extract_folder_ID = None
             \<and> console_error E (The_link_provided_was link) = None
             \<and> console_error E Please_make_sure = None \<longrightarrow>
             main_from_link n E link out_dir w
               = Exited 1 (printed Please_make_sure
                   (printed (The_link_provided_was link)
                      (printed Failed_to_extract_folder_ID w))))
        \<and> ((\<exists>w'. main_from_link n E link out_dir w = Exited 1 w')
             \<or> (\<exists>e w'. main_from_link n E link out_dir w = Crashed e w'))
        \<and> dirs (main_world (main_from_link n E link out_dir w)) = dirs w
        \<and> files (main_world (main_from_link n E link out_dir w)) = files w)"
proof (intro conjI impI)
  show "extract_id_from_link ''https://host/path/ABC123#section'' = Inr (Some ''ABC123'')"
    by code_simp
  show "get_domain_from_link ''https://host/path/ABC123#section'' = Inr ''host''"
    by code_simp
  assume empty: "urlparse link = Inr u \<and> py_strip CHR ''/'' (url_path u) = []"
  then show id: "extract_id_from_link link = Inr (Some [])"
    by (simp add: extract_id_from_link_def id_of_path_empty)
  have "\<not> id_truthy (Some [])"
    by (simp add: id_truthy_def)
  then show main: "main_from_link n E link out_dir w = give_up E link w"
    using id main_falsy by blast
  show "main_from_link n E link out_dir w
          = Exited 1 (printed Please_make_sure
              (printed (The_link_provided_was link) (printed Failed_to_extract_folder_ID w)))"
    if "console_error E Failed_to_extract_folder_ID = None
        \<and> console_error E (The_link_provided_was link) = None
        \<and> console_error E Please_make_sure = None"
    using that main give_up_accepted [of E link w] by simp
  show "(\<exists>w'. main_from_link n E link out_dir w = Exited 1 w')
          \<or> (\<exists>e w'. main_from_link n E link out_dir w = Crashed e w')"
    using main give_up_fatal [of E link w] by simp
  show "dirs (main_world (main_from_link n E link out_dir w)) = dirs w"
    using main by (simp add: give_up_fs)
  show "files (main_world (main_from_link n E link out_dir w)) = files w"
    using main by (simp add: give_up_fs)
qed

theorem link_resolver_example_and_empty_path_witness:
  "extract_id_from_link ''https://host/'' = Inr (Some [])
   \<and> main_from_link 3 demo_env ''https://host/'' ''out'' empty_world
       = Exited 1 (printed Please_make_sure
           (printed (The_link_provided_was ''https://host/'')
              (printed Failed_to_extract_folder_ID empty_world)))
   \<and> main_from_link 3 closed_env ''https://host/'' ''out'' empty_world
       = Crashed BrokenPipeError empty_world"
proof -
  have parsed: "urlparse ''https://host/'' =
     Inr \<lparr>url_scheme = ''https'', url_netloc = ''host'', url_path = ''/'',
          url_params = [], url_query = [], url_fragment = []\<rparr>"
    by code_simp
  have stripped: "py_strip CHR ''/'' (url_path \<lparr>url_scheme = ''https'', url_netloc = ''host'',
          url_path = ''/'', url_params = [], url_query = [], url_fragment = []\<rparr>) = []"
    by (simp add: py_strip_def)
  have console: "console_error demo_env Failed_to_extract_folder_ID = None"
    "console_error demo_env (The_link_provided_was ''https://host/'') = None"
    "console_error demo_env Please_make_sure = None"
    by (simp_all add: demo_env_def)
  have closed: "give_up closed_env ''https://host/'' empty_world
      = Crashed BrokenPipeError empty_world"
    by (simp add: give_up_def print_def closed_env_def)
  have "extract_id_from_link ''https://host/'' = Inr (Some [])
      \<and> main_from_link 3 demo_env ''https://host/'' ''out'' empty_world
       = Exited 1 (printed Please_make_sure
           (printed (The_link_provided_was ''https://host/'')
              (printed Failed_to_extract_folder_ID empty_world)))"
    using link_resolver_example_and_empty_path [of "''https://host/''"
        "\<lparr>url_scheme = ''https'', url_netloc = ''host'', url_path = ''/'',
          url_params = [], url_query = [], url_fragment = []\<rparr>" 3 demo_env "''out''" empty_world]
      parsed stripped console
    by blast
  moreover have "main_from_link 3 closed_env ''https://host/'' ''out'' empty_world
       = Crashed BrokenPipeError empty_world"
    using link_resolver_example_and_empty_path [of "''https://host/''"
        "\<lparr>url_scheme = ''https'', url_netloc = ''host'', url_path = ''/'',
          url_params = [], url_query = [], url_fragment = []\<rparr>" 3 closed_env "''out''"
        empty_world]
      parsed stripped closed
    by simp
  ultimately show ?thesis
    by blast
qed

text \<open>
  C6, as the claim has it, fails: the link \<^verbatim>\<open>https://host\<close> has an empty path, and
  the function returns a value for it, the empty string, instead of failing.
\<close>

theorem link_resolver_empty_path_returns:
  "urlparse ''https://host'' =
     Inr \<lparr>url_scheme = ''https'', url_netloc = ''host'', url_path = [],
          url_params = [], url_query = [], url_fragment = []\<rparr>
   \<and> extract_id_from_link ''https://host'' = Inr (Some [])"
  using urlparse_bare_host extract_id_bare_host by simp

section \<open>Failures stay inside their node\<close>

lemma trace_printed [simp]: "trace (printed m w) = trace w @ [Print m]"
  by (simp add: printed_def emit_def)

lemma print_accepted: "console_error E m = None \<Longrightarrow> print E m w = Return () (printed m w)"
  by (simp add: print_def)

lemma print_refused: "console_error E m = Some e \<Longrightarrow> print E m w = Raise e w"
  by (simp add: print_def)

lemma key_of_Some [simp]: "map_of kvs key = Some v \<Longrightarrow> key \<in> fst ` set kvs"
  by (metis map_of_eq_None_iff option.distinct(1))

lemma key_of_None [simp]: "map_of kvs key = None \<Longrightarrow> key \<notin> fst ` set kvs"
  by (simp add: map_of_eq_None_iff)

lemma process_thread_raises:
  assumes "process_thread E thread_id current_path w = Raise x w'"
  shows "\<exists>e. process_thread_try E thread_id current_path w = Raise e w'
            \<and> console_error E (Error_processing_document thread_id e) = Some x"
  using assms
  by (auto simp: process_thread_def print_def split: outcome.splits option.splits)

lemma process_thread_returns:
  assumes "\<forall>e. console_error E (Error_processing_document thread_id e) = None"
  shows "\<exists>w'. process_thread E thread_id current_path w = Return () w'"
  using assms by (simp add: process_thread_def print_def split: outcome.splits)

lemma process_thread_try_error_payload:
  assumes "get_thread E thread_id = Inr (JDict kvs)" and "map_of kvs ''error'' = Some err"
  shows "process_thread_try E thread_id current_path w
           = print E (Error_accessing_document thread_id err) w"
  using assms by (simp add: process_thread_try_def)

lemma process_thread_error_payload:
  assumes "get_thread E thread_id = Inr (JDict kvs)" and "map_of kvs ''error'' = Some err"
    and "console_error E (Error_accessing_document thread_id err) = None"
  shows "process_thread E thread_id current_path w
           = Return () (printed (Error_accessing_document thread_id err) w)"
  using assms
  by (simp add: process_thread_def process_thread_try_error_payload print_accepted)

lemma process_thread_error_payload_fs:
  assumes "get_thread E thread_id = Inr (JDict kvs)" and "map_of kvs ''error'' = Some err"
  shows "dirs (world_of (process_thread E thread_id current_path w)) = dirs w"
    and "files (world_of (process_thread E thread_id current_path w)) = files w"
  using assms
  by (auto simp: process_thread_def process_thread_try_error_payload print_def
      split: option.splits)

lemma open_folder_error_payload:
  assumes "get_folder E folder_id = Inr (JDict kvs)" and "map_of kvs ''error'' = Some err"
  shows "open_folder E folder_id base_path depth w
           = (case print E (Error_accessing_folder depth folder_id err) w of
                Raise e w1 \<Rightarrow> Raise e w1
              | Return u w1 \<Rightarrow> Return None w1)"
  using assms by (simp add: open_folder_def)

lemma process_folder_error_payload:
  assumes "get_folder E folder_id = Inr (JDict kvs)" and "map_of kvs ''error'' = Some err"
    and "console_error E (Error_accessing_folder depth folder_id err) = None"
  shows "process_folder (Suc n) E folder_id base_path depth w
           = Return () (printed (Error_accessing_folder depth folder_id err) w)"
  using assms by (simp add: open_folder_error_payload catch_folder_def print_accepted)

lemma process_folder_error_payload_fs:
  assumes "get_folder E folder_id = Inr (JDict kvs)" and "map_of kvs ''error'' = Some err"
  shows "dirs (world_of (process_folder (Suc n) E folder_id base_path depth w)) = dirs w"
    and "files (world_of (process_folder (Suc n) E folder_id base_path depth w)) = files w"
  using assms
  by (auto simp: open_folder_error_payload catch_folder_def print_def split: option.splits)

text \<open>
  The document \<open>odd_id\<close> behind the console that cannot show its id: the line of the
  error payload is refused, and so is the line of the handler.
\<close>

lemma odd_document_fetched:
  "get_thread narrow_env odd_id = Inr (JDict [(''error'', JStr ''gone'')])"
  by (simp add: narrow_env_def demo_env_def demo_thread_def odd_id_def)

lemma odd_document_raises:
  "process_thread narrow_env odd_id cp v = Raise UnicodeEncodeError v"
proof -
  have "console_error narrow_env (Error_accessing_document odd_id x) = Some UnicodeEncodeError"
    "console_error narrow_env (Error_processing_document odd_id e) = Some UnicodeEncodeError"
    for x e
    by (simp_all add: narrow_env_def narrow_console_def)
  then show ?thesis
    using odd_document_fetched
    by (simp add: process_thread_def process_thread_try_error_payload print_refused)
qed

text \<open>
  C1, as the code has it. Whatever the client does and whatever the document id is,
  \<open>process_thread\<close> raises to its caller only what the \<open>print\<close> of its own handler
  raises on the exception of the body, so it returns whenever the console accepts that
  line. When the metadata fetched has an \<open>error\<close> key, it leaves directories and files
  as they were; when the console accepts the error line, it prints that line and
  returns, and the loop over the children of the enclosing folder, whose own line the
  console accepts, goes on with the children that remain.
\<close>

theorem process_thread_raises_only_from_handler:
  "(process_thread E thread_id current_path w = Raise x w' \<longrightarrow>
      (\<exists>e. process_thread_try E thread_id current_path w = Raise e w'
           \<and> console_error E (Error_processing_document thread_id e) = Some x))
   \<and> ((\<forall>e. console_error E (Error_processing_document thread_id e) = None) \<longrightarrow>
        (\<exists>w'. process_thread E thread_id current_path w = Return () w'))
   \<and> (get_thread E thread_id = Inr (JDict kvs) \<and> map_of kvs ''error'' = Some err \<longrightarrow>
        dirs (world_of (process_thread E thread_id current_path w)) = dirs w
        \<and> files (world_of (process_thread E thread_id current_path w)) = files w
        \<and> (console_error E (Error_accessing_document thread_id err) = None \<longrightarrow>
             process_thread E thread_id current_path w
               = Return () (printed (Error_accessing_document thread_id err) w)
             \<and> trace (printed (Error_accessing_document thread_id err) w)
                 = trace w @ [Print (Error_accessing_document thread_id err)]
             \<and> (map_of child ''thread_id'' = Some thread_id
                  \<and> console_error E (Processing_document depth (k + 1) tot) = None \<longrightarrow>
                  process_children n E current_path depth tot k (JDict child # rest) w
                    = process_children n E current_path depth tot (k + 1) rest
                        (emit (Sleep depth)
                           (printed (Error_accessing_document thread_id err)
                              (printed (Processing_document depth (k + 1) tot) w))))))"
proof (intro conjI impI)
  show "\<exists>e. process_thread_try E thread_id current_path w = Raise e w'
           \<and> console_error E (Error_processing_document thread_id e) = Some x"
    if "process_thread E thread_id current_path w = Raise x w'"
    using that by (rule process_thread_raises)
  show "\<exists>w'. process_thread E thread_id current_path w = Return () w'"
    if "\<forall>e. console_error E (Error_processing_document thread_id e) = None"
    using that by (rule process_thread_returns)
next
  assume err: "get_thread E thread_id = Inr (JDict kvs) \<and> map_of kvs ''error'' = Some err"
  show "dirs (world_of (process_thread E thread_id current_path w)) = dirs w"
    using err process_thread_error_payload_fs(1) by blast
  show "files (world_of (process_thread E thread_id current_path w)) = files w"
    using err process_thread_error_payload_fs(2) by blast
  assume line: "console_error E (Error_accessing_document thread_id err) = None"
  show "process_thread E thread_id current_path w
          = Return () (printed (Error_accessing_document thread_id err) w)"
    using err line process_thread_error_payload by blast
  show "trace (printed (Error_accessing_document thread_id err) w)
          = trace w @ [Print (Error_accessing_document thread_id err)]"
    by simp
  assume "map_of child ''thread_id'' = Some thread_id
            \<and> console_error E (Processing_document depth (k + 1) tot) = None"
  with err line
  show "process_children n E current_path depth tot k (JDict child # rest) w
          = process_children n E current_path depth tot (k + 1) rest
              (emit (Sleep depth)
                 (printed (Error_accessing_document thread_id err)
                    (printed (Processing_document depth (k + 1) tot) w)))"
    using process_thread_error_payload [of E thread_id kvs err current_path
        "printed (Processing_document depth (k + 1) tot) w"]
    by (simp add: print_accepted)
qed

theorem process_thread_raises_only_from_handler_witness:
  "process_thread demo_env (JStr ''T2'') ''out'' empty_world
     = Return () (printed (Error_accessing_document (JStr ''T2'') (JStr ''nope'')) empty_world)
   \<and> process_children 1 demo_env ''out'' 0 2 0
        [JDict [(''thread_id'', JStr ''T2'')], JDict []] empty_world
     = process_children 1 demo_env ''out'' 0 2 (0 + 1) [JDict []]
         (emit (Sleep 0)
            (printed (Error_accessing_document (JStr ''T2'') (JStr ''nope''))
               (printed (Processing_document 0 (0 + 1) 2) empty_world)))
   \<and> (\<exists>w'. process_thread demo_env (JStr ''T9'') ''out'' empty_world = Return () w')
   \<and> (\<exists>e. process_thread_try narrow_env odd_id ''out'' empty_world = Raise e empty_world
          \<and> console_error narrow_env (Error_processing_document odd_id e)
              = Some UnicodeEncodeError)"
proof -
  have fetched: "get_thread demo_env (JStr ''T2'') = Inr (JDict [(''error'', JStr ''nope'')])
      \<and> map_of [(''error'', JStr ''nope'')] ''error'' = Some (JStr ''nope'')"
    by (simp add: demo_env_def demo_thread_def odd_id_def)
  have child: "map_of [(''thread_id'', JStr ''T2'')] ''thread_id'' = Some (JStr ''T2'')"
    by simp
  have console: "console_error demo_env m = None" for m
    by (simp add: demo_env_def)
  have "process_thread demo_env (JStr ''T2'') ''out'' empty_world
     = Return () (printed (Error_accessing_document (JStr ''T2'') (JStr ''nope'')) empty_world)
   \<and> process_children 1 demo_env ''out'' 0 2 0
        [JDict [(''thread_id'', JStr ''T2'')], JDict []] empty_world
     = process_children 1 demo_env ''out'' 0 2 (0 + 1) [JDict []]
         (emit (Sleep 0)
            (printed (Error_accessing_document (JStr ''T2'') (JStr ''nope''))
               (printed (Processing_document 0 (0 + 1) 2) empty_world)))"
    using process_thread_raises_only_from_handler [of demo_env "JStr ''T2''" "''out''"
        empty_world x w' "[(''error'', JStr ''nope'')]" "JStr ''nope''"
        "[(''thread_id'', JStr ''T2'')]" 0 0 2 1 "[JDict []]"] fetched child
      console [of "Error_accessing_document (JStr ''T2'') (JStr ''nope'')"]
      console [of "Processing_document 0 (0 + 1) 2"]
    by blast
  moreover have "\<exists>w'. process_thread demo_env (JStr ''T9'') ''out'' empty_world = Return () w'"
    using process_thread_raises_only_from_handler [of demo_env "JStr ''T9''" "''out''"
        empty_world x w' kvs err child depth k tot n rest] console
    by simp
  moreover have "\<exists>e. process_thread_try narrow_env odd_id ''out'' empty_world
        = Raise e empty_world
      \<and> console_error narrow_env (Error_processing_document odd_id e) = Some UnicodeEncodeError"
    using process_thread_raises_only_from_handler [of narrow_env odd_id "''out''"
        empty_world UnicodeEncodeError empty_world kvs err child depth k tot n rest]
      odd_document_raises [of "''out''" empty_world]
    by blast
  ultimately show ?thesis
    by blast
qed

text \<open>
  C1, as the claim has it, fails. The fetch of the document \<open>odd_id\<close> reports an error,
  and the console cannot encode this id: the \<open>print\<close> of line 69 raises, the handler
  catches that, and the \<open>print\<close> of line 114, which shows the id again, raises to the
  caller. In the loop over the children the exception ends the round and the loop, so
  the sibling that remains is not processed.
\<close>

theorem process_thread_raises_through_handler:
  "get_thread narrow_env odd_id = Inr (JDict [(''error'', JStr ''gone'')])
   \<and> process_thread narrow_env odd_id ''out'' empty_world
       = Raise UnicodeEncodeError empty_world
   \<and> process_children 1 narrow_env ''out'' 0 2 0
        [JDict [(''thread_id'', odd_id)], JDict [(''thread_id'', JStr ''T3'')]] empty_world
       = Raise UnicodeEncodeError (printed (Processing_document 0 1 2) empty_world)"
proof -
  have line: "console_error narrow_env (Processing_document 0 1 2) = None"
    by (simp add: narrow_env_def narrow_console_def)
  have "process_children 1 narrow_env ''out'' 0 2 0
        [JDict [(''thread_id'', odd_id)], JDict [(''thread_id'', JStr ''T3'')]] empty_world
       = Raise UnicodeEncodeError (printed (Processing_document 0 1 2) empty_world)"
    using odd_document_raises line by (simp add: print_accepted)
  then show ?thesis
    using odd_document_fetched odd_document_raises by simp
qed

text \<open>
  C2. When the fetch of a folder returns a payload with an \<open>error\<close> key,
  \<open>process_folder\<close>, called with room on the stack, makes no directory and writes no
  file. When the console accepts the error line, it prints that line and returns, and
  the loop of the parent then sleeps and goes on with the siblings that remain.
\<close>

theorem process_folder_error_payload_skips:
  "get_folder E folder_id = Inr (JDict kvs) \<and> map_of kvs ''error'' = Some err \<longrightarrow>
     dirs (world_of (process_folder (Suc n) E folder_id base_path depth w)) = dirs w
     \<and> files (world_of (process_folder (Suc n) E folder_id base_path depth w)) = files w
     \<and> (console_error E (Error_accessing_folder depth folder_id err) = None \<longrightarrow>
          process_folder (Suc n) E folder_id base_path depth w
            = Return () (printed (Error_accessing_folder depth folder_id err) w)
          \<and> trace (printed (Error_accessing_folder depth folder_id err) w)
              = trace w @ [Print (Error_accessing_folder depth folder_id err)])
     \<and> (map_of child ''thread_id'' = None \<and> map_of child ''folder_id'' = Some folder_id
          \<and> console_error E (Error_accessing_folder (d + 1) folder_id err) = None \<longrightarrow>
          process_children (Suc n) E parent_path d tot k (JDict child # rest) w
            = process_children (Suc n) E parent_path d tot (k + 1) rest
                (emit (Sleep d) (printed (Error_accessing_folder (d + 1) folder_id err) w)))"
proof (intro conjI impI)
  assume err: "get_folder E folder_id = Inr (JDict kvs) \<and> map_of kvs ''error'' = Some err"
  show "dirs (world_of (process_folder (Suc n) E folder_id base_path depth w)) = dirs w"
    using err process_folder_error_payload_fs(1) by blast
  show "files (world_of (process_folder (Suc n) E folder_id base_path depth w)) = files w"
    using err process_folder_error_payload_fs(2) by blast
  show "process_folder (Suc n) E folder_id base_path depth w
            = Return () (printed (Error_accessing_folder depth folder_id err) w)"
    if "console_error E (Error_accessing_folder depth folder_id err) = None"
    using err that process_folder_error_payload by blast
  show "trace (printed (Error_accessing_folder depth folder_id err) w)
              = trace w @ [Print (Error_accessing_folder depth folder_id err)]"
    by simp
  assume "map_of child ''thread_id'' = None \<and> map_of child ''folder_id'' = Some folder_id
          \<and> console_error E (Error_accessing_folder (d + 1) folder_id err) = None"
  with err show "process_children (Suc n) E parent_path d tot k (JDict child # rest) w
            = process_children (Suc n) E parent_path d tot (k + 1) rest
                (emit (Sleep d) (printed (Error_accessing_folder (d + 1) folder_id err) w))"
    using process_folder_error_payload [of E folder_id kvs err "d + 1" n parent_path w]
    by simp
qed

theorem process_folder_error_payload_skips_witness:
  "process_folder (Suc 0) demo_env (JStr ''G'') ''out/Top'' 1 empty_world
     = Return () (printed (Error_accessing_folder 1 (JStr ''G'') (JStr ''bad'')) empty_world)
   \<and> process_children (Suc 0) demo_env ''out/Top'' 0 2 0
        [JDict [(''folder_id'', JStr ''G'')], JDict []] empty_world
     = process_children (Suc 0) demo_env ''out/Top'' 0 2 (0 + 1) [JDict []]
         (emit (Sleep 0) (printed (Error_accessing_folder (0 + 1) (JStr ''G'') (JStr ''bad''))
            empty_world))"
proof -
  have fetched: "get_folder demo_env (JStr ''G'') = Inr (JDict [(''error'', JStr ''bad'')])
      \<and> map_of [(''error'', JStr ''bad'')] ''error'' = Some (JStr ''bad'')"
    by (simp add: demo_env_def demo_folder_def)
  have child: "map_of [(''folder_id'', JStr ''G'')] ''thread_id'' = None
      \<and> map_of [(''folder_id'', JStr ''G'')] ''folder_id'' = Some (JStr ''G'')"
    by simp
  have console: "console_error demo_env m = None" for m
    by (simp add: demo_env_def)
  have "process_folder (Suc 0) demo_env (JStr ''G'') ''out/Top'' 1 empty_world
     = Return () (printed (Error_accessing_folder 1 (JStr ''G'') (JStr ''bad'')) empty_world)"
    using process_folder_error_payload_skips [of demo_env "JStr ''G''"
        "[(''error'', JStr ''bad'')]" "JStr ''bad''" 0 "''out/Top''" 1 empty_world
        "[(''folder_id'', JStr ''G'')]" 0 "''out/Top''" 2 0 "[JDict []]"]
      fetched console [of "Error_accessing_folder 1 (JStr ''G'') (JStr ''bad'')"]
    by blast
  moreover have "process_children (Suc 0) demo_env ''out/Top'' 0 2 0
        [JDict [(''folder_id'', JStr ''G'')], JDict []] empty_world
     = process_children (Suc 0) demo_env ''out/Top'' 0 2 (0 + 1) [JDict []]
         (emit (Sleep 0) (printed (Error_accessing_folder (0 + 1) (JStr ''G'') (JStr ''bad''))
            empty_world))"
    using process_folder_error_payload_skips [of demo_env "JStr ''G''"
        "[(''error'', JStr ''bad'')]" "JStr ''bad''" 0 "''out/Top''" 1 empty_world
        "[(''folder_id'', JStr ''G'')]" 0 "''out/Top''" 2 0 "[JDict []]"]
      fetched child console [of "Error_accessing_folder (0 + 1) (JStr ''G'') (JStr ''bad'')"]
    by blast
  ultimately show ?thesis
    by blast
qed

section \<open>Every run is a sequence of allowed events\<close>

lemma replay_simps [simp]:
  "replay [] w = w" "replay (evs @ evs') w = replay evs' (replay evs w)"
  "replay [ev] w = emit ev w"
  by (simp_all add: replay_def)

lemma trace_emit [simp]: "trace (emit ev w) = trace w @ [ev]"
  by (cases ev) (simp_all add: emit_def)

lemma trace_replay [simp]: "trace (replay evs w) = trace w @ evs"
proof (induction evs arbitrary: w)
  case Nil
  show ?case by simp
next
  case (Cons ev evs)
  have "replay (ev # evs) w = replay evs (emit ev w)"
    by (simp add: replay_def)
  then show ?case
    by (simp add: Cons.IH)
qed

lemma via_refl [simp]: "via K w w"
  unfolding via_def by (rule exI [of _ "[]"]) simp

lemma via_emit: "K ev \<Longrightarrow> via K w w' \<Longrightarrow> via K w (emit ev w')"
proof -
  assume ok: "K ev" and "via K w w'"
  then obtain evs where evs: "w' = replay evs w" "list_all K evs"
    by (auto simp: via_def)
  have "emit ev w' = replay (evs @ [ev]) w \<and> list_all K (evs @ [ev])"
    using evs ok by simp
  then show ?thesis
    unfolding via_def by blast
qed

lemma via_trans: "via K w w' \<Longrightarrow> via K w' w'' \<Longrightarrow> via K w w''"
proof -
  assume "via K w w'" and "via K w' w''"
  then obtain evs evs' where
    "w' = replay evs w" "list_all K evs" "w'' = replay evs' w'" "list_all K evs'"
    by (auto simp: via_def)
  then have "w'' = replay (evs @ evs') w \<and> list_all K (evs @ evs')"
    by simp
  then show ?thesis
    unfolding via_def by blast
qed

lemma via_mono: "(\<And>ev. K ev \<Longrightarrow> K' ev) \<Longrightarrow> via K w w' \<Longrightarrow> via K' w w'"
  unfolding via_def list_all_iff by blast

lemma via_print:
  "quiet K \<Longrightarrow> via K w w' \<Longrightarrow> via K w (world_of (print E m w'))"
  by (auto simp: print_def printed_def quiet_def split: option.splits intro!: via_emit)

lemma via_request: "quiet K \<Longrightarrow> via K w w' \<Longrightarrow> via K w (emit (Requests_get u) w')"
  by (rule via_emit) (simp_all add: quiet_def)

lemma via_case_outcome:
  assumes "via K w0 (world_of r)"
    and "\<And>x w'. via K w0 w' \<Longrightarrow> via K w0 (world_of (k x w'))"
    and "\<And>e w'. via K w0 w' \<Longrightarrow> via K w0 (world_of (h e w'))"
  shows "via K w0 (world_of (case r of Return x w' \<Rightarrow> k x w' | Raise e w' \<Rightarrow> h e w'))"
  using assms by (cases r) simp_all

lemma write_file_via:
  assumes "\<And>s. os_error E p = None \<Longrightarrow> K (File_written p s)" and "via K w0 w"
  shows "via K w0 (world_of (write_file E p x w))"
  using assms
  by (auto simp: write_file_def split: option.splits json.splits intro!: via_emit)

lemma create_directory_via:
  assumes "os_error E p = None \<Longrightarrow> K (Makedirs p)" and "via K w0 w"
  shows "via K w0 (world_of (create_directory_if_not_exists E p w))"
  using assms
  by (auto simp: create_directory_if_not_exists_def makedirs_def
      split: option.splits intro!: via_emit)

lemma download_blob_try_via:
  assumes "quiet K" and "\<And>s. os_error E p = None \<Longrightarrow> K (File_written p s)" and "via K w0 w"
  shows "via K w0 (world_of (download_blob_try E u p w))"
  using assms
  by (auto simp: download_blob_try_def Let_def split: sum.splits
      intro!: via_case_outcome via_request write_file_via)

lemma download_blob_via:
  assumes "quiet K" and "\<And>s. os_error E p = None \<Longrightarrow> K (File_written p s)" and "via K w0 w"
  shows "via K w0 (world_of (download_blob E u p w))"
  using assms
  by (auto simp: download_blob_def intro!: via_case_outcome via_print download_blob_try_via)

lemma sanitize_value_no_slash: "sanitize_value nm = Inr s \<Longrightarrow> CHR ''/'' \<notin> set s"
  by (cases nm) (auto simp: sanitize_filename_def reserved_chars_def)

lemma download_blobs_via:
  assumes "quiet K"
    and "\<And>name s. CHR ''/'' \<notin> set name \<Longrightarrow> os_error E (path_join ap name) = None
           \<Longrightarrow> K (File_written (path_join ap name) s)"
  shows "via K w0 w \<Longrightarrow> via K w0 (world_of (download_blobs E ap bs w))"
proof (induction bs arbitrary: w)
  case Nil
  then show ?case by simp
next
  case (Cons blob rest)
  have step: "via K w0 (world_of (download_blobs E ap rest v))" if "via K w0 v" for v
    using that by (rule Cons.IH)
  show ?case
    using Cons.prems assms
    by (auto simp: Let_def split: sum.splits dest!: sanitize_value_no_slash
        intro!: via_case_outcome via_print download_blob_via step)
qed

lemma download_attachments_via:
  assumes "quiet K"
    and "os_error E (path_join cp (t @ ''_attachments'')) = None
           \<Longrightarrow> K (Makedirs (path_join cp (t @ ''_attachments'')))"
    and "\<And>name s. CHR ''/'' \<notin> set name
           \<Longrightarrow> os_error E (path_join (path_join cp (t @ ''_attachments'')) name) = None
           \<Longrightarrow> K (File_written (path_join (path_join cp (t @ ''_attachments'')) name) s)"
    and "via K w0 w"
  shows "via K w0 (world_of (download_attachments E td t cp w))"
  using assms
  by (auto simp: download_attachments_def Let_def split: sum.splits
      intro!: via_case_outcome create_directory_via download_blobs_via)

lemma quiet_allowed [simp]: "quiet (allowed E d)"
  by (simp add: quiet_def allowed_def)

lemma reaches_refl [simp]: "reaches E d w w"
  by (simp add: reaches_def)

lemma reaches_emit: "allowed E d ev \<Longrightarrow> reaches E d w w' \<Longrightarrow> reaches E d w (emit ev w')"
  unfolding reaches_def by (rule via_emit)

lemma reaches_trans: "reaches E d w w' \<Longrightarrow> reaches E d w' w'' \<Longrightarrow> reaches E d w w''"
  unfolding reaches_def by (rule via_trans)

lemma allowed_mono: "d' \<le> d \<Longrightarrow> allowed E d ev \<Longrightarrow> allowed E d' ev"
  by (cases ev) (auto simp: allowed_def)

lemma reaches_mono: "d' \<le> d \<Longrightarrow> reaches E d w w' \<Longrightarrow> reaches E d' w w'"
  unfolding reaches_def by (erule via_mono [rotated]) (rule allowed_mono)

lemma reaches_print: "reaches E d w w' \<Longrightarrow> reaches E d w (world_of (print E' m w'))"
  unfolding reaches_def by (rule via_print) simp_all

lemma reaches_request: "reaches E d w w' \<Longrightarrow> reaches E d w (emit (Requests_get u) w')"
  unfolding reaches_def by (rule via_request) simp_all

lemma reaches_sleep: "reaches E d w w' \<Longrightarrow> reaches E d w (emit (Sleep d) w')"
  by (rule reaches_emit) (simp_all add: allowed_def)

lemma reaches_case_outcome:
  assumes "reaches E d w0 (world_of r)"
    and "\<And>x w'. reaches E d w0 w' \<Longrightarrow> reaches E d w0 (world_of (k x w'))"
    and "\<And>e w'. reaches E d w0 w' \<Longrightarrow> reaches E d w0 (world_of (h e w'))"
  shows "reaches E d w0 (world_of (case r of Return x w' \<Rightarrow> k x w' | Raise e w' \<Rightarrow> h e w'))"
  using assms by (cases r) simp_all

lemmas reaches_intros = reaches_case_outcome reaches_print reaches_request

lemma write_file_reaches:
  "reaches E d w0 w \<Longrightarrow> reaches E d w0 (world_of (write_file E p x w))"
  unfolding reaches_def by (rule write_file_via) (simp_all add: allowed_def)

lemma create_directory_reaches:
  "reaches E d w0 w \<Longrightarrow> reaches E d w0 (world_of (create_directory_if_not_exists E p w))"
  unfolding reaches_def by (rule create_directory_via) (simp_all add: allowed_def)

lemma download_attachments_reaches:
  "reaches E d w0 w \<Longrightarrow> reaches E d w0 (world_of (download_attachments E td t cp w))"
  unfolding reaches_def by (rule download_attachments_via) (simp_all add: allowed_def)

lemma export_document_reaches:
  "reaches E d w0 w \<Longrightarrow> reaches E d w0 (world_of (export_document E i td t cp w))"
  by (auto simp: export_document_def Let_def split: sum.splits
      intro!: reaches_intros write_file_reaches)

lemma process_thread_try_reaches:
  "reaches E d w0 w \<Longrightarrow> reaches E d w0 (world_of (process_thread_try E i cp w))"
  by (auto simp: process_thread_try_def split: sum.splits bool.splits
      intro!: reaches_intros export_document_reaches download_attachments_reaches)

lemma process_thread_reaches:
  "reaches E d w0 w \<Longrightarrow> reaches E d w0 (world_of (process_thread E i cp w))"
  by (auto simp: process_thread_def intro!: reaches_intros process_thread_try_reaches)

lemma open_folder_reaches:
  "reaches E d w0 w \<Longrightarrow> reaches E d w0 (world_of (open_folder E i bp depth w))"
  by (auto simp: open_folder_def Let_def split: sum.splits bool.splits
      intro!: reaches_intros create_directory_reaches)

text \<open>
  A walk at depth \<open>d\<close> pauses at depth \<open>d\<close> and below it only: the loop by induction
  on the children, the walk by induction on the room on the stack.
\<close>

lemma children_reaches:
  assumes sub: "\<And>folder_id base_path v.
      reaches E (Suc depth) v (world_of (process_folder n E folder_id base_path (Suc depth) v))"
  shows "reaches E depth w0 w
     \<Longrightarrow> reaches E depth w0 (world_of (process_children n E cp depth tot k children w))"
proof (induction children arbitrary: k w)
  case Nil
  then show ?case by simp
next
  case (Cons child rest)
  have rest: "reaches E depth w0 (world_of (process_children n E cp depth tot k' rest v))"
    if "reaches E depth w0 v" for v k'
    using that by (rule Cons.IH)
  have nested: "reaches E depth w0 (world_of (process_folder n E i cp (Suc depth) v))"
    if "reaches E depth w0 v" for v i
  proof -
    have "reaches E depth v (world_of (process_folder n E i cp (Suc depth) v))"
      using sub [of v i cp] by (rule reaches_mono [rotated]) simp
    with that show ?thesis by (rule reaches_trans)
  qed
  show ?case
    using Cons.prems
    by (auto split: sum.splits bool.splits
        intro!: reaches_intros process_thread_reaches nested rest reaches_sleep)
qed

lemma process_folder_reaches:
  "reaches E depth w0 w
     \<Longrightarrow> reaches E depth w0 (world_of (process_folder n E folder_id base_path depth w))"
proof (induction n arbitrary: folder_id base_path depth w0 w)
  case 0
  then show ?case by simp
next
  case (Suc n)
  have loop: "reaches E depth w0 (world_of (process_children n E cp depth tot k cs v))"
    if "reaches E depth w0 v" for cp tot k cs v
    using Suc.IH [OF reaches_refl] that by (rule children_reaches)
  show ?case
    using Suc.prems
    by (auto simp: catch_folder_def split: option.splits prod.splits
        intro!: reaches_intros open_folder_reaches loop)
qed

lemma process_children_reaches:
  "reaches E depth w0 w
     \<Longrightarrow> reaches E depth w0 (world_of (process_children n E cp depth tot k children w))"
  using process_folder_reaches [OF reaches_refl] by (rule children_reaches)

section \<open>Throttling\<close>

lemma deeper_keeps_sleeps:
  assumes "reaches E (Suc depth) w w'"
  shows "count_list (trace w') (Sleep depth) = count_list (trace w) (Sleep depth)"
proof -
  from assms obtain evs where evs: "w' = replay evs w" "list_all (allowed E (Suc depth)) evs"
    by (auto simp: reaches_def via_def)
  have "Sleep depth \<notin> set evs"
  proof
    assume "Sleep depth \<in> set evs"
    with evs(2) have "allowed E (Suc depth) (Sleep depth)"
      by (simp add: list_all_iff)
    then show False by (simp add: allowed_def)
  qed
  then have "count_list evs (Sleep depth) = 0"
    by (simp add: count_list_0_iff)
  with evs(1) show ?thesis by simp
qed

text \<open>
  A round of the loop pauses nowhere at the depth of the loop before its end; then it
  either has raised, which ends the loop, or it pauses once and the loop goes on.
\<close>

lemma process_children_round:
  "(\<exists>e v. process_children n E cp depth tot k (child # rest) w = Raise e v
          \<and> reaches E (Suc depth) w v)
   \<or> (\<exists>v. reaches E (Suc depth) w v
          \<and> process_children n E cp depth tot k (child # rest) w
              = process_children n E cp depth tot (k + 1) rest (emit (Sleep depth) v))"
proof (cases "py_contains ''thread_id'' child")
  case (Inl e)
  then show ?thesis by auto
next
  case (Inr has_thread)
  show ?thesis
  proof (cases has_thread)
    case True
    let ?line = "print E (Processing_document depth (k + 1) tot) w"
    have line: "reaches E (Suc depth) w (world_of ?line)"
      by (rule reaches_print) simp
    show ?thesis
    proof (cases ?line)
      case (Raise e v)
      with Inr True line show ?thesis by auto
    next
      case (Return u w1)
      with line have w1: "reaches E (Suc depth) w w1" by simp
      show ?thesis
      proof (cases "py_subscript child ''thread_id''")
        case (Inl e)
        with Inr True Return w1 show ?thesis by auto
      next
        case inr: (Inr thread_id)
        have doc: "reaches E (Suc depth) w (world_of (process_thread E thread_id cp w1))"
          using w1 by (rule process_thread_reaches)
        show ?thesis
        proof (cases "process_thread E thread_id cp w1")
          case raised: (Raise e v)
          with Inr True Return inr doc show ?thesis by auto
        next
          case returned: (Return u' w2)
          with Inr True Return inr doc show ?thesis by auto
        qed
      qed
    qed
  next
    case False
    show ?thesis
    proof (cases "py_contains ''folder_id'' child")
      case (Inl e)
      with Inr False show ?thesis by auto
    next
      case inr: (Inr has_folder)
      show ?thesis
      proof (cases has_folder)
        case no_folder: False
        with Inr False inr show ?thesis
          by (intro disjI2 exI [of _ w]) simp
      next
        case has: True
        show ?thesis
        proof (cases "py_subscript child ''folder_id''")
          case (Inl e)
          with Inr False inr has show ?thesis by auto
        next
          case sub: (Inr sub_id)
          have walk: "reaches E (Suc depth) w
              (world_of (process_folder n E sub_id cp (depth + 1) w))"
            using process_folder_reaches [of E "Suc depth" w w n sub_id cp] by simp
          show ?thesis
          proof (cases "process_folder n E sub_id cp (depth + 1) w")
            case raised: (Raise e v)
            with Inr False inr has sub walk show ?thesis by auto
          next
            case returned: (Return u w2)
            with Inr False inr has sub walk show ?thesis by auto
          qed
        qed
      qed
    qed
  qed
qed

lemma loop_sleeps_once_per_child:
  "process_children n E cp depth tot k children w = Return u w' \<Longrightarrow>
   count_list (trace w') (Sleep depth) = count_list (trace w) (Sleep depth) + length children"
proof (induction children arbitrary: k w)
  case Nil
  then show ?case by simp
next
  case (Cons child rest)
  from process_children_round [of n E cp depth tot k child rest w] Cons.prems
  obtain v where v: "reaches E (Suc depth) w v"
    "process_children n E cp depth tot (k + 1) rest (emit (Sleep depth) v) = Return u w'"
    by auto
  have "count_list (trace w') (Sleep depth)
      = count_list (trace (emit (Sleep depth) v)) (Sleep depth) + length rest"
    using v(2) by (rule Cons.IH)
  moreover have "count_list (trace v) (Sleep depth) = count_list (trace w) (Sleep depth)"
    using v(1) by (rule deeper_keeps_sleeps)
  ultimately show ?case by simp
qed

text \<open>An exception that ends the loop leaves it with fewer pauses than children.\<close>

lemma loop_raised_sleeps_less:
  "process_children n E cp depth tot k children w = Raise e w' \<Longrightarrow>
   count_list (trace w') (Sleep depth) < count_list (trace w) (Sleep depth) + length children"
proof (induction children arbitrary: k w)
  case Nil
  then show ?case by simp
next
  case (Cons child rest)
  from process_children_round [of n E cp depth tot k child rest w]
  show ?case
  proof (elim disjE exE conjE)
    fix e' v
    assume "process_children n E cp depth tot k (child # rest) w = Raise e' v"
      and "reaches E (Suc depth) w v"
    with Cons.prems show ?thesis
      using deeper_keeps_sleeps [of E depth w v] by simp
  next
    fix v
    assume v: "reaches E (Suc depth) w v"
      and "process_children n E cp depth tot k (child # rest) w
             = process_children n E cp depth tot (k + 1) rest (emit (Sleep depth) v)"
    with Cons.prems
    have "process_children n E cp depth tot (k + 1) rest (emit (Sleep depth) v) = Raise e w'"
      by simp
    then have "count_list (trace w') (Sleep depth)
        < count_list (trace (emit (Sleep depth) v)) (Sleep depth) + length rest"
      by (rule Cons.IH)
    moreover have "count_list (trace v) (Sleep depth) = count_list (trace w) (Sleep depth)"
      using v by (rule deeper_keeps_sleeps)
    ultimately show ?thesis by simp
  qed
qed

text \<open>With a console that accepts every line, the handlers contain every exception.\<close>

lemma process_folder_returns:
  assumes "\<forall>m. console_error E m = None"
  shows "\<exists>w'. process_folder (Suc n) E folder_id base_path depth w = Return () w'"
  using assms by (simp add: catch_folder_def print_def split: outcome.splits)

lemma loop_returns:
  assumes console: "\<forall>m. console_error E m = None" and room: "0 < n"
  shows "(\<forall>c \<in> set children. \<exists>kvs. c = JDict kvs)
     \<Longrightarrow> \<exists>w'. process_children n E cp depth tot k children w = Return () w'"
proof (induction children arbitrary: k w)
  case Nil
  then show ?case by simp
next
  case (Cons child rest)
  from Cons.prems obtain kvs where child: "child = JDict kvs"
    by auto
  have rest: "\<exists>w'. process_children n E cp depth tot k' rest v = Return () w'" for k' v
    using Cons.prems by (intro Cons.IH) simp
  obtain m where n: "n = Suc m"
    using room by (cases n) auto
  show ?case
  proof (cases "map_of kvs ''thread_id''")
    case (Some thread_id)
    obtain w2 where "process_thread E thread_id cp
        (printed (Processing_document depth (k + 1) tot) w) = Return () w2"
      using process_thread_returns console by blast
    with Some child console rest show ?thesis
      by (simp add: print_accepted)
  next
    case None
    show ?thesis
    proof (cases "map_of kvs ''folder_id''")
      case inner: None
      with None child rest show ?thesis by simp
    next
      case (Some sub_id)
      obtain w2 where "process_folder (Suc m) E sub_id cp (depth + 1) w = Return () w2"
        using process_folder_returns console by blast
      with None Some child rest n show ?thesis
        by simp
    qed
  qed
qed

section \<open>One pause per child\<close>

text \<open>
  C5. The loop over the children of a folder sleeps once for each child, whether the
  child is a document, a sub-folder or an entry of neither kind. When the loop at depth
  \<open>d\<close> over \<open>N\<close> children returns, the trace holds \<open>N\<close> more pauses of depth \<open>d\<close>
  than before. It does return when the children are JSON objects, the console accepts
  every line and the stack has room for the walk of a sub-folder: then no exception
  leaves the processing of a child. So the walk of a folder with \<open>N\<close> such children
  adds \<open>N\<close> pauses of its own depth; the walks of its sub-folders pause at greater
  depths.
\<close>

theorem throttle_once_per_child:
  "(process_children n E cp depth tot k children w = Return u w' \<longrightarrow>
      count_list (trace w') (Sleep depth)
        = count_list (trace w) (Sleep depth) + length children)
   \<and> ((\<forall>c \<in> set children. \<exists>kvs. c = JDict kvs)
        \<and> (\<forall>m. console_error E m = None) \<and> 0 < n \<longrightarrow>
        (\<exists>w'. process_children n E cp depth tot k children w = Return () w'
           \<and> count_list (trace w') (Sleep depth)
               = count_list (trace w) (Sleep depth) + length children))
   \<and> ((\<forall>c \<in> set cs. \<exists>kvs. c = JDict kvs)
        \<and> (\<forall>m. console_error E m = None) \<and> 0 < n
        \<and> open_folder E folder_id base_path depth v = Return (Some (t, path, cs)) v1 \<longrightarrow>
        (\<exists>v'. process_folder (Suc n) E folder_id base_path depth v = Return () v'
           \<and> count_list (trace v') (Sleep depth)
               = count_list (trace v) (Sleep depth) + length cs))"
proof (intro conjI impI)
  show "count_list (trace w') (Sleep depth)
        = count_list (trace w) (Sleep depth) + length children"
    if "process_children n E cp depth tot k children w = Return u w'"
    using that by (rule loop_sleeps_once_per_child)
next
  assume hyps: "(\<forall>c \<in> set children. \<exists>kvs. c = JDict kvs)
        \<and> (\<forall>m. console_error E m = None) \<and> 0 < n"
  then obtain w' where run: "process_children n E cp depth tot k children w = Return () w'"
    using loop_returns [of E n children cp depth tot k w] by blast
  then have "count_list (trace w') (Sleep depth)
      = count_list (trace w) (Sleep depth) + length children"
    by (rule loop_sleeps_once_per_child)
  with run show "\<exists>w'. process_children n E cp depth tot k children w = Return () w'
           \<and> count_list (trace w') (Sleep depth)
               = count_list (trace w) (Sleep depth) + length children"
    by blast
next
  assume hyps: "(\<forall>c \<in> set cs. \<exists>kvs. c = JDict kvs)
        \<and> (\<forall>m. console_error E m = None) \<and> 0 < n
        \<and> open_folder E folder_id base_path depth v = Return (Some (t, path, cs)) v1"
  have "reaches E (Suc depth) v (world_of (open_folder E folder_id base_path depth v))"
    by (rule open_folder_reaches) simp
  with hyps have opened: "count_list (trace v1) (Sleep depth) = count_list (trace v) (Sleep depth)"
    by (simp add: deeper_keeps_sleeps)
  from hyps obtain v2 where
    run: "process_children n E path depth (length cs) 0 cs v1 = Return () v2"
    using loop_returns [of E n cs path depth "length cs" 0 v1] by blast
  then have loop: "count_list (trace v2) (Sleep depth)
      = count_list (trace v1) (Sleep depth) + length cs"
    by (rule loop_sleeps_once_per_child)
  have "process_folder (Suc n) E folder_id base_path depth v
      = Return () (printed (Completed_folder depth t (length cs)) v2)"
    using hyps run by (simp add: catch_folder_def print_accepted)
  moreover have "count_list (trace (printed (Completed_folder depth t (length cs)) v2))
      (Sleep depth) = count_list (trace v) (Sleep depth) + length cs"
    using loop opened by simp
  ultimately show "\<exists>v'. process_folder (Suc n) E folder_id base_path depth v = Return () v'
           \<and> count_list (trace v') (Sleep depth)
               = count_list (trace v) (Sleep depth) + length cs"
    by blast
qed

theorem throttle_once_per_child_witness:
  "(\<exists>w'. process_children 0 demo_env ''out/Top'' 0 2 0 [JStr ''note'', JDict []] empty_world
        = Return () w'
     \<and> count_list (trace w') (Sleep 0) = count_list (trace empty_world) (Sleep 0) + 2)
   \<and> (\<exists>w'. process_children 1 demo_env ''out/Top'' 0 3 0
        [JDict [(''thread_id'', JStr ''T2'')], JDict [(''folder_id'', JStr ''G'')], JDict []]
        empty_world = Return () w'
     \<and> count_list (trace w') (Sleep 0) = count_list (trace empty_world) (Sleep 0) + 3)
   \<and> (\<exists>w'. process_folder (Suc 1) demo_env (JStr ''F'') ''out'' 0 empty_world = Return () w'
     \<and> count_list (trace w') (Sleep 0) = count_list (trace empty_world) (Sleep 0) + 5)"
proof (intro conjI)
  let ?two = "[JStr ''note'', JDict []]"
  have run: "process_children 0 demo_env ''out/Top'' 0 2 0 ?two empty_world
      = Return () (emit (Sleep 0) (emit (Sleep 0) empty_world))"
    by simp
  have "count_list (trace (emit (Sleep 0) (emit (Sleep 0) empty_world))) (Sleep 0)
      = count_list (trace empty_world) (Sleep 0) + length ?two"
    using throttle_once_per_child [THEN conjunct1, rule_format, OF run] .
  then have "count_list (trace (emit (Sleep 0) (emit (Sleep 0) empty_world))) (Sleep 0)
      = count_list (trace empty_world) (Sleep 0) + 2"
    by simp
  with run
  show "\<exists>w'. process_children 0 demo_env ''out/Top'' 0 2 0 ?two empty_world = Return () w'
     \<and> count_list (trace w') (Sleep 0) = count_list (trace empty_world) (Sleep 0) + 2"
    by blast
next
  let ?three = "[JDict [(''thread_id'', JStr ''T2'')], JDict [(''folder_id'', JStr ''G'')], JDict []]"
  have hyps: "(\<forall>c \<in> set ?three. \<exists>kvs. c = JDict kvs)
      \<and> (\<forall>m. console_error demo_env m = None) \<and> 0 < (1::nat)"
    by (simp add: demo_env_def)
  from throttle_once_per_child [THEN conjunct2, THEN conjunct1, rule_format, OF hyps,
      of "''out/Top''" 0 3 0 empty_world]
  obtain w' where run: "process_children 1 demo_env ''out/Top'' 0 3 0 ?three empty_world
      = Return () w'"
    and pauses: "count_list (trace w') (Sleep 0)
      = count_list (trace empty_world) (Sleep 0) + length ?three"
    by blast
  from pauses have "count_list (trace w') (Sleep 0)
      = count_list (trace empty_world) (Sleep 0) + 3"
    by simp
  with run
  show "\<exists>w'. process_children 1 demo_env ''out/Top'' 0 3 0 ?three empty_world = Return () w'
     \<and> count_list (trace w') (Sleep 0) = count_list (trace empty_world) (Sleep 0) + 3"
    by blast
next
  let ?five = "[JDict [(''thread_id'', JStr ''T2'')], JDict [(''folder_id'', JStr ''G'')], JDict [],
      JDict [(''thread_id'', JStr ''T1'')], JDict [(''thread_id'', JStr ''T3'')]]"
  have "\<exists>v1. open_folder demo_env (JStr ''F'') ''out'' 0 empty_world
      = Return (Some (''Top'', path_join ''out'' ''Top'', ?five)) v1"
    by (simp add: open_folder_def demo_env_def demo_folder_def folder_title_of_def
        children_of_def sanitize_filename_def reserved_chars_def
        create_directory_if_not_exists_def makedirs_def path_exists_def empty_world_def
        print_def printed_def emit_def Let_def)
  then obtain v1 where opened: "open_folder demo_env (JStr ''F'') ''out'' 0 empty_world
      = Return (Some (''Top'', path_join ''out'' ''Top'', ?five)) v1"
    by blast
  have hyps: "(\<forall>c \<in> set ?five. \<exists>kvs. c = JDict kvs)
      \<and> (\<forall>m. console_error demo_env m = None) \<and> 0 < (1::nat)
      \<and> open_folder demo_env (JStr ''F'') ''out'' 0 empty_world
          = Return (Some (''Top'', path_join ''out'' ''Top'', ?five)) v1"
    using opened by (simp add: demo_env_def)
  from throttle_once_per_child [THEN conjunct2, THEN conjunct2, rule_format, OF hyps]
  obtain w' where run: "process_folder (Suc 1) demo_env (JStr ''F'') ''out'' 0 empty_world
      = Return () w'"
    and pauses: "count_list (trace w') (Sleep 0)
      = count_list (trace empty_world) (Sleep 0) + length ?five"
    by blast
  from pauses have "count_list (trace w') (Sleep 0)
      = count_list (trace empty_world) (Sleep 0) + 5"
    by simp
  with run
  show "\<exists>w'. process_folder (Suc 1) demo_env (JStr ''F'') ''out'' 0 empty_world = Return () w'
     \<and> count_list (trace w') (Sleep 0) = count_list (trace empty_world) (Sleep 0) + 5"
    by blast
qed

section \<open>Paths of a document\<close>

lemma written_paths_append [simp]:
  "written_paths (evs @ evs') = written_paths evs @ written_paths evs'"
  by (induction evs rule: written_paths.induct) simp_all

lemma made_dirs_append [simp]: "made_dirs (evs @ evs') = made_dirs evs @ made_dirs evs'"
  by (induction evs rule: made_dirs.induct) simp_all

lemma blob_requests_append [simp]:
  "blob_requests (evs @ evs') = blob_requests evs @ blob_requests evs'"
  by (induction evs rule: blob_requests.induct) simp_all

lemma files_emit_other: "p \<notin> set (written_paths [ev]) \<Longrightarrow> files (emit ev w) p = files w p"
  by (cases ev) (auto simp: emit_def)

lemma files_replay_other: "p \<notin> set (written_paths evs) \<Longrightarrow> files (replay evs w) p = files w p"
proof (induction evs arbitrary: w)
  case Nil
  show ?case by simp
next
  case (Cons ev evs)
  have split: "replay (ev # evs) w = replay evs (emit ev w)"
    by (simp add: replay_def)
  have "p \<notin> set (written_paths [ev])" and "p \<notin> set (written_paths evs)"
    using Cons.prems by (cases ev; simp)+
  then show ?case
    using Cons.IH [of "emit ev w"] files_emit_other [of p ev w] split by simp
qed

lemma dirs_emit: "dirs (emit ev w) = dirs w \<union> set (made_dirs [ev])"
  by (cases ev) (auto simp: emit_def)

lemma dirs_replay: "dirs (replay evs w) = dirs w \<union> set (made_dirs evs)"
proof (induction evs arbitrary: w)
  case Nil
  show ?case by simp
next
  case (Cons ev evs)
  have "replay (ev # evs) w = replay evs (emit ev w)"
    by (simp add: replay_def)
  moreover have "set (made_dirs (ev # evs)) = set (made_dirs [ev]) \<union> set (made_dirs evs)"
    by (cases ev) auto
  ultimately show ?case
    using Cons.IH [of "emit ev w"] dirs_emit [of ev w] by auto
qed

lemma attachment_writes_inside:
  "list_all (attachment_event ap) evs \<Longrightarrow> \<forall>p \<in> set (written_paths evs). inside ap p"
  by (induction evs rule: written_paths.induct) (auto simp: attachment_event_def)

lemma attachment_dirs:
  "list_all (attachment_event ap) evs \<Longrightarrow> set (made_dirs evs) \<subseteq> {ap}"
  by (induction evs rule: made_dirs.induct) (auto simp: attachment_event_def)

lemma quiet_attachment_event [simp]: "quiet (attachment_event ap)"
  by (simp add: quiet_def attachment_event_def)

text \<open>A name without slash is joined to a directory by one separator at most.\<close>

lemma path_join_plain:
  "CHR ''/'' \<notin> set b \<Longrightarrow> path_join a b = dir_prefix a @ b"
  by (cases b) (auto simp: path_join_def dir_prefix_def)

lemma path_join_ext:
  "CHR ''/'' \<notin> set t \<Longrightarrow> CHR ''/'' \<notin> set ext \<Longrightarrow> path_join a (t @ ext) = dir_prefix a @ t @ ext"
  using path_join_plain [of "t @ ext" a] by simp

lemma inside_attachments:
  assumes "CHR ''/'' \<notin> set t" and "CHR ''/'' \<notin> set name"
  shows "inside (path_join cp (t @ ''_attachments''))
           (path_join (path_join cp (t @ ''_attachments'')) name)"
proof -
  have ap: "path_join cp (t @ ''_attachments'') = dir_prefix cp @ t @ ''_attachments''"
    using assms(1) by (simp add: path_join_ext)
  have "dir_prefix (dir_prefix cp @ t @ ''_attachments'') = dir_prefix cp @ t @ ''_attachments/''"
    by (simp add: dir_prefix_def)
  then have "path_join (path_join cp (t @ ''_attachments'')) name
      = (dir_prefix cp @ t @ ''_attachments'') @ ''/'' @ name"
    using assms(2) ap by (simp add: path_join_plain)
  then show ?thesis
    using assms(2) ap by (simp add: inside_def)
qed

lemma export_not_inside_attachments:
  assumes "CHR ''/'' \<notin> set t" and "ext = ''.docx'' \<or> ext = ''.html''"
  shows "\<not> inside (path_join cp (t @ ''_attachments'')) (path_join cp (t @ ext))"
proof
  assume in_dir: "inside (path_join cp (t @ ''_attachments'')) (path_join cp (t @ ext))"
  have ap: "path_join cp (t @ ''_attachments'') = dir_prefix cp @ t @ ''_attachments''"
    using assms(1) by (simp add: path_join_ext)
  have ex: "path_join cp (t @ ext) = dir_prefix cp @ t @ ext"
    using assms by (auto simp: path_join_ext)
  have "length (path_join cp (t @ ext)) < Suc (length (path_join cp (t @ ''_attachments'')))"
    using assms(2) ap ex by auto
  then have "length (take (Suc (length (path_join cp (t @ ''_attachments''))))
      (path_join cp (t @ ext))) < Suc (length (path_join cp (t @ ''_attachments'')))"
    by simp
  moreover have "length (path_join cp (t @ ''_attachments'') @ ''/'')
      = Suc (length (path_join cp (t @ ''_attachments'')))"
    by simp
  ultimately show False
    using in_dir unfolding inside_def by (metis less_irrefl)
qed

lemma thread_title_no_slash: "thread_title_of td = Inr t \<Longrightarrow> CHR ''/'' \<notin> set t"
  by (auto simp: thread_title_of_def split: sum.splits dest: sanitize_value_no_slash)

lemma download_attachments_events:
  assumes "CHR ''/'' \<notin> set t"
  shows "\<exists>evs. world_of (download_attachments E td t cp w) = replay evs w
           \<and> list_all (attachment_event (path_join cp (t @ ''_attachments''))) evs"
proof -
  have "via (attachment_event (path_join cp (t @ ''_attachments''))) w
      (world_of (download_attachments E td t cp w))"
    using assms
    by (intro download_attachments_via)
      (simp_all add: attachment_event_def inside_attachments)
  then show ?thesis
    by (simp add: via_def)
qed

section \<open>The export of one document\<close>

text \<open>
  The fallback branch of the export, when the DOCX request is answered with a status
  other than 200, the console accepts the line that says so, and the metadata holds
  non-empty markup. The line after the file is printed or refused.
\<close>

lemma export_document_fallback:
  assumes "requests_get E (Export_docx_url (base_url E) thread_id) (Some (access_token E)) = Inr resp"
    and "status_code resp \<noteq> 200"
    and "map_of kvs ''html'' = Some (JStr markup)" and "markup \<noteq> []"
    and "os_error E (path_join cp (t @ ''.html'')) = None"
    and "console_error E (Failed_to_download_DOCX t (status_code resp)) = None"
  shows "\<exists>said. world_of (export_document E thread_id (JDict kvs) t cp w) =
           replay
             ([Requests_get (Export_docx_url (base_url E) thread_id),
               Print (Failed_to_download_DOCX t (status_code resp)),
               File_written (path_join cp (t @ ''.html'')) markup] @ said) w
           \<and> written_paths said = []"
proof (cases "console_error E (Extracted_HTML_instead (path_join cp (t @ ''.html'')))")
  case None
  with assms
  have "world_of (export_document E thread_id (JDict kvs) t cp w) =
           replay
             ([Requests_get (Export_docx_url (base_url E) thread_id),
               Print (Failed_to_download_DOCX t (status_code resp)),
               File_written (path_join cp (t @ ''.html'')) markup]
              @ [Print (Extracted_HTML_instead (path_join cp (t @ ''.html'')))]) w"
    by (simp add: export_document_def Let_def write_file_def print_def printed_def replay_def)
  moreover have "written_paths [Print (Extracted_HTML_instead (path_join cp (t @ ''.html'')))] = []"
    by simp
  ultimately show ?thesis by blast
next
  case (Some e)
  with assms
  have "world_of (export_document E thread_id (JDict kvs) t cp w) =
           replay
             ([Requests_get (Export_docx_url (base_url E) thread_id),
               Print (Failed_to_download_DOCX t (status_code resp)),
               File_written (path_join cp (t @ ''.html'')) markup] @ []) w"
    by (simp add: export_document_def Let_def write_file_def print_def printed_def replay_def)
  moreover have "written_paths [] = []"
    by simp
  ultimately show ?thesis by blast
qed

lemma export_document_fallback_returns:
  assumes "requests_get E (Export_docx_url (base_url E) thread_id) (Some (access_token E)) = Inr resp"
    and "status_code resp \<noteq> 200"
    and "map_of kvs ''html'' = Some (JStr markup)" and "markup \<noteq> []"
    and "os_error E (path_join cp (t @ ''.html'')) = None"
    and "console_error E (Failed_to_download_DOCX t (status_code resp)) = None"
    and "console_error E (Extracted_HTML_instead (path_join cp (t @ ''.html''))) = None"
  shows "export_document E thread_id (JDict kvs) t cp w =
           Return () (replay
             [Requests_get (Export_docx_url (base_url E) thread_id),
              Print (Failed_to_download_DOCX t (status_code resp)),
              File_written (path_join cp (t @ ''.html'')) markup,
              Print (Extracted_HTML_instead (path_join cp (t @ ''.html'')))] w)"
  using assms
  by (simp add: export_document_def Let_def write_file_def print_def printed_def replay_def)

text \<open>
  After the export step, whether it has returned or raised, \<open>process_thread\<close> adds
  events of the attachment step only.
\<close>

lemma process_thread_after_export:
  assumes "get_thread E thread_id = Inr (JDict kvs)" and "map_of kvs ''error'' = None"
    and "thread_title_of (JDict kvs) = Inr t"
  shows "\<exists>evs. world_of (process_thread E thread_id cp w)
             = replay evs (world_of (export_document E thread_id (JDict kvs) t cp w))
           \<and> list_all (attachment_event (path_join cp (t @ ''_attachments''))) evs"
proof -
  let ?K = "attachment_event (path_join cp (t @ ''_attachments''))"
  have slash: "CHR ''/'' \<notin> set t"
    using assms(3) by (rule thread_title_no_slash)
  have attach: "via ?K w0 (world_of (download_attachments E (JDict kvs) t cp v))"
    if "via ?K w0 v" for w0 v
    using slash that
    by (intro download_attachments_via)
      (simp_all add: attachment_event_def inside_attachments)
  have body: "process_thread_try E thread_id cp w =
      (case export_document E thread_id (JDict kvs) t cp w of
         Raise e w1 \<Rightarrow> Raise e w1
       | Return u w1 \<Rightarrow> download_attachments E (JDict kvs) t cp w1)"
    using assms by (simp add: process_thread_try_def)
  have "via ?K (world_of (export_document E thread_id (JDict kvs) t cp w))
      (world_of (process_thread E thread_id cp w))"
    unfolding process_thread_def body
    by (cases "export_document E thread_id (JDict kvs) t cp w")
      (auto intro!: via_case_outcome via_print attach)
  then show ?thesis
    by (simp add: via_def)
qed

text \<open>
  C3. A document is fetched without error and has a title; its DOCX request is answered
  with a status other than 200, which the console lets the code report; its metadata
  holds non-empty markup under \<open>html\<close>, and the system lets the fallback file be
  written, where no directory has its name. Then \<open>process_thread\<close> writes the file
  \<open>title.html\<close> with the markup exactly once and never writes \<open>title.docx\<close>;
  whatever else it writes lies in the attachments directory of the document. It returns
  when the console accepts the line of its handler.
\<close>

theorem fallback_writes_html_only:
  assumes "get_thread E thread_id = Inr (JDict kvs)" and "map_of kvs ''error'' = None"
    and "thread_title_of (JDict kvs) = Inr t"
    and "requests_get E (Export_docx_url (base_url E) thread_id) (Some (access_token E)) = Inr resp"
    and "status_code resp \<noteq> 200"
    and "map_of kvs ''html'' = Some (JStr markup)" and "markup \<noteq> []"
    and "os_error E (path_join cp (t @ ''.html'')) = None"
    and "console_error E (Failed_to_download_DOCX t (status_code resp)) = None"
    and "path_join cp (t @ ''.html'') \<notin> dirs w"
  shows "\<exists>evs. trace (world_of (process_thread E thread_id cp w)) = trace w @ evs
           \<and> count_list (written_paths evs) (path_join cp (t @ ''.html'')) = 1
           \<and> path_join cp (t @ ''.docx'') \<notin> set (written_paths evs)
           \<and> (\<forall>p \<in> set (written_paths evs).
                 p = path_join cp (t @ ''.html'') \<or> inside (path_join cp (t @ ''_attachments'')) p)
           \<and> files (world_of (process_thread E thread_id cp w)) (path_join cp (t @ ''.html''))
               = Some markup
           \<and> ((\<forall>e. console_error E (Error_processing_document thread_id e) = None) \<longrightarrow>
                (\<exists>w'. process_thread E thread_id cp w = Return () w'))"
proof -
  let ?html = "path_join cp (t @ ''.html'')"
  let ?docx = "path_join cp (t @ ''.docx'')"
  let ?ap = "path_join cp (t @ ''_attachments'')"
  let ?export = "[Requests_get (Export_docx_url (base_url E) thread_id),
      Print (Failed_to_download_DOCX t (status_code resp)),
      File_written ?html markup]"
  have slash: "CHR ''/'' \<notin> set t"
    using assms(3) by (rule thread_title_no_slash)
  obtain said where
    exported: "world_of (export_document E thread_id (JDict kvs) t cp w)
      = replay (?export @ said) w"
    and said: "written_paths said = []"
    using export_document_fallback [OF assms(4-9)] by blast
  obtain evs where
    run: "world_of (process_thread E thread_id cp w) = replay evs (replay (?export @ said) w)"
    and att: "list_all (attachment_event ?ap) evs"
    using process_thread_after_export [OF assms(1-3), of cp w] exported by auto
  have in_dir: "\<forall>p \<in> set (written_paths evs). inside ?ap p"
    using att by (rule attachment_writes_inside)
  have html_out: "\<not> inside ?ap ?html" and docx_out: "\<not> inside ?ap ?docx"
    using slash by (simp_all add: export_not_inside_attachments)
  have html_new: "?html \<notin> set (written_paths evs)" and docx_new: "?docx \<notin> set (written_paths evs)"
    using in_dir html_out docx_out by blast+
  have html_said: "?html \<notin> set (written_paths (said @ evs))"
    using html_new said by simp
  have differ: "?docx \<noteq> ?html"
    using slash by (simp add: path_join_ext)
  have "files (replay ?export w) ?html = Some markup"
    by (simp add: replay_def emit_def)
  then have "files (replay (said @ evs) (replay ?export w)) ?html = Some markup"
    using files_replay_other [OF html_said] by simp
  then have content: "files (world_of (process_thread E thread_id cp w)) ?html = Some markup"
    using run by (simp add: replay_def)
  have "trace (world_of (process_thread E thread_id cp w)) = trace w @ (?export @ said @ evs)"
    using run by simp
  moreover have "count_list (written_paths (?export @ said @ evs)) ?html = 1"
    using html_new by (simp add: said count_list_0_iff)
  moreover have "?docx \<notin> set (written_paths (?export @ said @ evs))"
    using docx_new differ by (simp add: said)
  moreover have "\<forall>p \<in> set (written_paths (?export @ said @ evs)). p = ?html \<or> inside ?ap p"
    using in_dir by (simp add: said)
  moreover have "(\<forall>e. console_error E (Error_processing_document thread_id e) = None) \<longrightarrow>
      (\<exists>w'. process_thread E thread_id cp w = Return () w')"
    using process_thread_returns by blast
  ultimately show ?thesis
    using content by blast
qed

theorem fallback_writes_html_only_witness:
  "\<exists>evs. trace (world_of (process_thread demo_env (JStr ''T1'') ''out'' empty_world))
       = trace empty_world @ evs
     \<and> count_list (written_paths evs) (path_join ''out'' (''Doc1'' @ ''.html'')) = 1
     \<and> path_join ''out'' (''Doc1'' @ ''.docx'') \<notin> set (written_paths evs)
     \<and> (\<forall>p \<in> set (written_paths evs).
           p = path_join ''out'' (''Doc1'' @ ''.html'')
           \<or> inside (path_join ''out'' (''Doc1'' @ ''_attachments'')) p)
     \<and> files (world_of (process_thread demo_env (JStr ''T1'') ''out'' empty_world))
         (path_join ''out'' (''Doc1'' @ ''.html'')) = Some ''<p>hi</p>''
     \<and> (\<exists>w'. process_thread demo_env (JStr ''T1'') ''out'' empty_world = Return () w')"
proof -
  let ?kvs = "[(''thread'', JDict [(''title'', JStr ''Doc:1'')]),
               (''html'', JStr ''<p>hi</p>''),
               (''blobs'', JList [JDict [(''name'', JStr ''a.png'')],
                                  JDict [(''url'', JStr ''u1''), (''name'', JStr ''b.png'')]])]"
  have fetched: "get_thread demo_env (JStr ''T1'') = Inr (JDict ?kvs)"
    by (simp add: demo_env_def demo_thread_def)
  have no_error: "map_of ?kvs ''error'' = None"
    by simp
  have title: "thread_title_of (JDict ?kvs) = Inr ''Doc1''"
    by (simp add: thread_title_of_def sanitize_filename_def reserved_chars_def)
  have answered: "requests_get demo_env (Export_docx_url (base_url demo_env) (JStr ''T1''))
      (Some (access_token demo_env)) = Inr \<lparr>status_code = 500, content = []\<rparr>"
    by (simp add: demo_env_def demo_requests_def)
  have status: "status_code \<lparr>status_code = 500, content = []\<rparr> \<noteq> 200"
    by simp
  have markup: "map_of ?kvs ''html'' = Some (JStr ''<p>hi</p>'')" "''<p>hi</p>'' \<noteq> []"
    by simp_all
  have permitted: "os_error demo_env (path_join ''out'' (''Doc1'' @ ''.html'')) = None"
    by (simp add: demo_env_def)
  have console: "console_error demo_env m = None" for m
    by (simp add: demo_env_def)
  have no_dir: "path_join ''out'' (''Doc1'' @ ''.html'') \<notin> dirs empty_world"
    by (simp add: empty_world_def)
  show ?thesis
    using fallback_writes_html_only [OF fetched no_error title answered status markup permitted
        console no_dir] console
    by simp
qed

section \<open>Attachments\<close>

lemma print_world:
  "\<exists>said. world_of (print E m w) = replay said w
     \<and> written_paths said = [] \<and> made_dirs said = [] \<and> blob_requests said = []"
proof (cases "console_error E m")
  case None
  then have "world_of (print E m w) = replay [Print m] w"
    by (simp add: print_def printed_def)
  then show ?thesis
    by (intro exI [of _ "[Print m]"]) simp
next
  case (Some e)
  then have "world_of (print E m w) = replay [] w"
    by (simp add: print_def)
  then show ?thesis
    by (intro exI [of _ "[]"]) simp
qed

lemma world_of_relabel [simp]:
  "world_of (case r of Raise e w \<Rightarrow> Raise e w | Return u w \<Rightarrow> Return c w) = world_of r"
  by (cases r) simp_all

lemma download_blob_try_fails:
  assumes "\<not> download_ok E u p"
  shows "\<exists>e. download_blob_try E u p w = Raise e (emit (Requests_get (Blob_url u)) w)"
  using assms
  by (auto simp: download_ok_def download_blob_try_def write_file_def Let_def
      split: sum.splits option.splits)

lemma download_blob_try_succeeds:
  assumes "download_ok E u p"
  shows "\<exists>s. download_blob_try E u p w
           = Return True (replay [Requests_get (Blob_url u), File_written p s] w)"
  using assms
  by (auto simp: download_ok_def download_blob_try_def write_file_def Let_def replay_def
      split: sum.splits option.splits)

lemma download_blob_result:
  "\<exists>evs. world_of (download_blob E u p w) = replay evs w
     \<and> written_paths evs = (if download_ok E u p then [p] else [])
     \<and> made_dirs evs = []
     \<and> (\<forall>b v. download_blob E u p w = Return b v \<longrightarrow> b = download_ok E u p)"
proof (cases "download_ok E u p")
  case True
  then obtain s where "download_blob_try E u p w
      = Return True (replay [Requests_get (Blob_url u), File_written p s] w)"
    using download_blob_try_succeeds by blast
  then have "download_blob E u p w
      = Return True (replay [Requests_get (Blob_url u), File_written p s] w)"
    by (simp add: download_blob_def)
  with True show ?thesis
    by (intro exI [of _ "[Requests_get (Blob_url u), File_written p s]"]) simp
next
  case False
  then obtain e where "download_blob_try E u p w = Raise e (emit (Requests_get (Blob_url u)) w)"
    using download_blob_try_fails by blast
  then have run: "download_blob E u p w =
      (case print E (Error_downloading_attachment e) (emit (Requests_get (Blob_url u)) w) of
         Raise e' w2 \<Rightarrow> Raise e' w2
       | Return x w2 \<Rightarrow> Return False w2)"
    by (simp add: download_blob_def)
  obtain said where said:
    "world_of (print E (Error_downloading_attachment e) (emit (Requests_get (Blob_url u)) w))
       = replay said (emit (Requests_get (Blob_url u)) w)"
    "written_paths said = []" "made_dirs said = []"
    using print_world by blast
  have "world_of (download_blob E u p w) = replay ([Requests_get (Blob_url u)] @ said) w"
    using run said(1) by (simp add: replay_def)
  moreover have "\<forall>b v. download_blob E u p w = Return b v \<longrightarrow> b = download_ok E u p"
    using run False by (auto split: outcome.splits)
  ultimately show ?thesis
    using False said(2,3)
    by (intro exI [of _ "[Requests_get (Blob_url u)] @ said"]) simp
qed

lemma lacks_url_skipped:
  "lacks_url blob \<Longrightarrow> download_blobs E ap (blob # rest) w = download_blobs E ap rest w"
  by (cases blob) (auto simp: lacks_url_def split: option.splits sum.splits)

lemma all_lack_url_skipped:
  "\<forall>b \<in> set bs. lacks_url b \<Longrightarrow> download_blobs E ap bs w = Return () w"
  by (induction bs) (simp_all add: lacks_url_skipped del: download_blobs.simps(2))

text \<open>The loop makes no directory, and writes no file when no download succeeds.\<close>

lemma download_blobs_result:
  "\<exists>evs. world_of (download_blobs E ap bs w) = replay evs w
     \<and> made_dirs evs = []
     \<and> ((\<forall>u p. \<not> download_ok E u p) \<longrightarrow> written_paths evs = [])"
proof (induction bs arbitrary: w)
  case Nil
  show ?case by (intro exI [of _ "[]"]) simp
next
  case (Cons blob rest)
  show ?case
  proof (cases "\<exists>u nm s. py_get blob ''url'' JNull = Inr u
      \<and> py_get blob ''name'' (JStr ''Unknown_Attachment'') = Inr nm
      \<and> sanitize_value nm = Inr s")
    case False
    then have "world_of (download_blobs E ap (blob # rest) w) = w"
      by (auto split: sum.splits)
    then show ?thesis by (intro exI [of _ "[]"]) simp
  next
    case True
    then obtain u nm s where got: "py_get blob ''url'' JNull = Inr u"
        "py_get blob ''name'' (JStr ''Unknown_Attachment'') = Inr nm" "sanitize_value nm = Inr s"
      by blast
    show ?thesis
    proof (cases "py_truthy u")
      case False
      with got have "download_blobs E ap (blob # rest) w = download_blobs E ap rest w"
        by simp
      with Cons.IH [of w] show ?thesis by simp
    next
      case True
      let ?p = "path_join ap s"
      obtain evs where dl: "world_of (download_blob E u ?p w) = replay evs w"
        and evs: "written_paths evs = (if download_ok E u ?p then [?p] else [])"
          "made_dirs evs = []"
        and result: "\<forall>b v. download_blob E u ?p w = Return b v \<longrightarrow> b = download_ok E u ?p"
        using download_blob_result by blast
      have "\<exists>said v. made_dirs said = [] \<and> written_paths said = []
          \<and> ((download_blobs E ap (blob # rest) w = download_blobs E ap rest v
                \<and> v = replay (evs @ said) w)
              \<or> world_of (download_blobs E ap (blob # rest) w) = replay (evs @ said) w)"
      proof (cases "download_blob E u ?p w")
        case (Raise e w1)
        with got True dl
        have "world_of (download_blobs E ap (blob # rest) w) = replay (evs @ []) w"
          by simp
        then show ?thesis
          by (intro exI [of _ "[]"]) simp
      next
        case (Return ok w1)
        with dl result have w1: "w1 = replay evs w" and ok: "ok = download_ok E u ?p"
          by simp_all
        show ?thesis
        proof (cases ok)
          case False
          with got True Return w1
          have "download_blobs E ap (blob # rest) w = download_blobs E ap rest (replay (evs @ []) w)"
            by simp
          then show ?thesis
            by (intro exI [of _ "[]"]) simp
        next
          case downloaded: True
          obtain said where said:
            "world_of (print E (Downloaded_attachment ?p) w1) = replay said w1"
            "written_paths said = []" "made_dirs said = []"
            using print_world by blast
          show ?thesis
          proof (cases "print E (Downloaded_attachment ?p) w1")
            case raised: (Raise e w2)
            with got True Return downloaded said(1) w1
            have "world_of (download_blobs E ap (blob # rest) w) = replay (evs @ said) w"
              by simp
            with said(2,3) show ?thesis by blast
          next
            case printed: (Return x w2)
            with got True Return downloaded said(1) w1
            have "download_blobs E ap (blob # rest) w
                = download_blobs E ap rest (replay (evs @ said) w)"
              by simp
            with said(2,3) show ?thesis by blast
          qed
        qed
      qed
      then obtain said v where said: "made_dirs said = []" "written_paths said = []"
        and step: "(download_blobs E ap (blob # rest) w = download_blobs E ap rest v
                \<and> v = replay (evs @ said) w)
              \<or> world_of (download_blobs E ap (blob # rest) w) = replay (evs @ said) w"
        by blast
      from step show ?thesis
      proof
        assume go: "download_blobs E ap (blob # rest) w = download_blobs E ap rest v
                \<and> v = replay (evs @ said) w"
        obtain evs' where rest: "world_of (download_blobs E ap rest v) = replay evs' v"
            "made_dirs evs' = []"
            "(\<forall>u p. \<not> download_ok E u p) \<longrightarrow> written_paths evs' = []"
          using Cons.IH [of v] by blast
        have "world_of (download_blobs E ap (blob # rest) w) = replay ((evs @ said) @ evs') w"
          using go rest(1) by simp
        moreover have "made_dirs ((evs @ said) @ evs') = []"
          using evs(2) rest(2) said(1) by simp
        moreover have "(\<forall>u p. \<not> download_ok E u p) \<longrightarrow> written_paths ((evs @ said) @ evs') = []"
          using evs(1) rest(3) said(2) by simp
        ultimately show ?thesis by blast
      next
        assume stop: "world_of (download_blobs E ap (blob # rest) w) = replay (evs @ said) w"
        moreover have "made_dirs (evs @ said) = []"
          using evs(2) said(1) by simp
        moreover have "(\<forall>u p. \<not> download_ok E u p) \<longrightarrow> written_paths (evs @ said) = []"
          using evs(1) said(2) by simp
        ultimately show ?thesis by blast
      qed
    qed
  qed
qed

lemma create_directory_result:
  assumes "os_error E p = None" and "p \<notin> dom (files w)"
  shows "\<exists>evs. create_directory_if_not_exists E p w = Return () (replay evs w)
           \<and> p \<in> dirs (replay evs w) \<and> blob_requests evs = [] \<and> written_paths evs = []
           \<and> made_dirs evs = (if path_exists w p then [] else [p])"
proof (cases "path_exists w p")
  case True
  with assms(2) have "p \<in> dirs w"
    by (auto simp: path_exists_def)
  with True show ?thesis
    by (intro exI [of _ "[]"]) (simp add: create_directory_if_not_exists_def)
next
  case False
  with assms(1) have "create_directory_if_not_exists E p w = Return () (replay [Makedirs p] w)"
    by (simp add: create_directory_if_not_exists_def makedirs_def)
  with False show ?thesis
    by (intro exI [of _ "[Makedirs p]"]) (simp add: emit_def)
qed

text \<open>
  C10. A document is fetched without error, its export step has returned, its \<open>blobs\<close>
  are a non-empty list, and the system lets the attachments directory be made where no
  file has its name. Then the directory \<open>title_attachments\<close> exists before the first
  blob request is sent and is still there at the end, also when no blob has a URL and
  when no download succeeds; in both cases no file is written, so the directory stays
  empty. A blob without URL is passed over without any effect.
\<close>

theorem attachments_directory_first:
  assumes "get_thread E thread_id = Inr (JDict kvs)" and "map_of kvs ''error'' = None"
    and "thread_title_of (JDict kvs) = Inr t"
    and "export_document E thread_id (JDict kvs) t cp w = Return () w0"
    and "map_of kvs ''blobs'' = Some (JList bs)" and "bs \<noteq> []"
    and "os_error E (path_join cp (t @ ''_attachments'')) = None"
    and "path_join cp (t @ ''_attachments'') \<notin> dom (files w0)"
  shows "\<exists>w1 evs.
           create_directory_if_not_exists E (path_join cp (t @ ''_attachments'')) w0 = Return () w1
           \<and> path_join cp (t @ ''_attachments'') \<in> dirs w1
           \<and> blob_requests (trace w1) = blob_requests (trace w0)
           \<and> world_of (process_thread E thread_id cp w) = replay evs w1
           \<and> made_dirs evs = []
           \<and> path_join cp (t @ ''_attachments'') \<in> dirs (world_of (process_thread E thread_id cp w))
           \<and> ((\<forall>b \<in> set bs. lacks_url b) \<longrightarrow> process_thread E thread_id cp w = Return () w1)
           \<and> ((\<forall>u p. \<not> download_ok E u p) \<longrightarrow> written_paths evs = [])
           \<and> (\<forall>blob rest v. lacks_url blob \<longrightarrow>
                 download_blobs E (path_join cp (t @ ''_attachments'')) (blob # rest) v
                   = download_blobs E (path_join cp (t @ ''_attachments'')) rest v)"
proof -
  let ?ap = "path_join cp (t @ ''_attachments'')"
  obtain made where made: "create_directory_if_not_exists E ?ap w0 = Return () (replay made w0)"
      "?ap \<in> dirs (replay made w0)" "blob_requests made = []"
    using create_directory_result [OF assms(7,8)] by blast
  let ?w1 = "replay made w0"
  obtain evs where evs: "world_of (download_blobs E ?ap bs ?w1) = replay evs ?w1"
      "made_dirs evs = []" "(\<forall>u p. \<not> download_ok E u p) \<longrightarrow> written_paths evs = []"
    using download_blobs_result by blast
  have body: "process_thread_try E thread_id cp w = download_blobs E ?ap bs ?w1"
    using assms(1-6) made(1)
    by (simp add: process_thread_try_def download_attachments_def Let_def)
  have "\<exists>said. world_of (process_thread E thread_id cp w) = replay (evs @ said) ?w1
      \<and> made_dirs said = [] \<and> written_paths said = []"
  proof (cases "download_blobs E ?ap bs ?w1")
    case (Return u w2)
    with body evs(1) have "world_of (process_thread E thread_id cp w) = replay (evs @ []) ?w1"
      by (simp add: process_thread_def)
    then show ?thesis
      by (intro exI [of _ "[]"]) simp
  next
    case (Raise e w2)
    obtain said where said:
      "world_of (print E (Error_processing_document thread_id e) w2) = replay said w2"
      "written_paths said = []" "made_dirs said = []"
      using print_world by blast
    from Raise body evs(1) said(1)
    have "world_of (process_thread E thread_id cp w) = replay (evs @ said) ?w1"
      by (simp add: process_thread_def)
    with said(2,3) show ?thesis
      by blast
  qed
  then obtain said where said: "world_of (process_thread E thread_id cp w) = replay (evs @ said) ?w1"
      "made_dirs said = []" "written_paths said = []"
    by blast
  have "blob_requests (trace ?w1) = blob_requests (trace w0)"
    using made(3) by simp
  moreover have "made_dirs (evs @ said) = []"
    using evs(2) said(2) by simp
  moreover have "?ap \<in> dirs (world_of (process_thread E thread_id cp w))"
    using made(2) said(1) by (simp add: dirs_replay)
  moreover have "(\<forall>b \<in> set bs. lacks_url b) \<longrightarrow> process_thread E thread_id cp w = Return () ?w1"
    using body by (simp add: all_lack_url_skipped process_thread_def)
  moreover have "(\<forall>u p. \<not> download_ok E u p) \<longrightarrow> written_paths (evs @ said) = []"
    using evs(3) said(3) by simp
  moreover have "\<forall>blob rest v. lacks_url blob \<longrightarrow>
      download_blobs E ?ap (blob # rest) v = download_blobs E ?ap rest v"
    using lacks_url_skipped by blast
  ultimately show ?thesis
    using made(1,2) said(1) by blast
qed

theorem attachments_directory_first_witness:
  "(\<exists>w1 evs.
      create_directory_if_not_exists offline_env (path_join ''out'' (''Doc1'' @ ''_attachments''))
        (replay
          [Requests_get (Export_docx_url (base_url offline_env) (JStr ''T1'')),
           Print (Failed_to_download_DOCX ''Doc1'' 500),
           File_written (path_join ''out'' (''Doc1'' @ ''.html'')) ''<p>hi</p>'',
           Print (Extracted_HTML_instead (path_join ''out'' (''Doc1'' @ ''.html'')))]
          empty_world) = Return () w1
      \<and> path_join ''out'' (''Doc1'' @ ''_attachments'') \<in> dirs w1
      \<and> world_of (process_thread offline_env (JStr ''T1'') ''out'' empty_world) = replay evs w1
      \<and> written_paths evs = []
      \<and> path_join ''out'' (''Doc1'' @ ''_attachments'')
          \<in> dirs (world_of (process_thread offline_env (JStr ''T1'') ''out'' empty_world)))
   \<and> (\<exists>w1. process_thread demo_env (JStr ''T4'') ''out'' empty_world = Return () w1
         \<and> path_join ''out'' (''Memo'' @ ''_attachments'') \<in> dirs w1)"
proof
  let ?kvs = "[(''thread'', JDict [(''title'', JStr ''Doc:1'')]),
               (''html'', JStr ''<p>hi</p>''),
               (''blobs'', JList [JDict [(''name'', JStr ''a.png'')],
                                  JDict [(''url'', JStr ''u1''), (''name'', JStr ''b.png'')]])]"
  let ?w0 = "replay
          [Requests_get (Export_docx_url (base_url offline_env) (JStr ''T1'')),
           Print (Failed_to_download_DOCX ''Doc1'' 500),
           File_written (path_join ''out'' (''Doc1'' @ ''.html'')) ''<p>hi</p>'',
           Print (Extracted_HTML_instead (path_join ''out'' (''Doc1'' @ ''.html'')))]
          empty_world"
  have fetched: "get_thread offline_env (JStr ''T1'') = Inr (JDict ?kvs)"
    by (simp add: offline_env_def demo_env_def demo_thread_def)
  have no_error: "map_of ?kvs ''error'' = None"
    by simp
  have title: "thread_title_of (JDict ?kvs) = Inr ''Doc1''"
    by (simp add: thread_title_of_def sanitize_filename_def reserved_chars_def)
  have answered: "requests_get offline_env (Export_docx_url (base_url offline_env) (JStr ''T1''))
      (Some (access_token offline_env)) = Inr \<lparr>status_code = 500, content = []\<rparr>"
    by (simp add: offline_env_def demo_env_def demo_requests_def)
  have permitted: "os_error offline_env p = None" for p
    by (simp add: offline_env_def demo_env_def)
  have console: "console_error offline_env m = None" for m
    by (simp add: offline_env_def demo_env_def)
  have exported: "export_document offline_env (JStr ''T1'') (JDict ?kvs) ''Doc1'' ''out'' empty_world
      = Return () ?w0"
    using export_document_fallback_returns [OF answered, of ?kvs "''<p>hi</p>''" "''out''"
        "''Doc1''" empty_world] permitted console
    by simp
  have blobs: "map_of ?kvs ''blobs'' = Some (JList [JDict [(''name'', JStr ''a.png'')],
      JDict [(''url'', JStr ''u1''), (''name'', JStr ''b.png'')]])"
    "[JDict [(''name'', JStr ''a.png'')],
      JDict [(''url'', JStr ''u1''), (''name'', JStr ''b.png'')]] \<noteq> []"
    by simp_all
  have free: "path_join ''out'' (''Doc1'' @ ''_attachments'') \<notin> dom (files ?w0)"
    by (simp add: replay_def emit_def empty_world_def path_join_def)
  have offline: "\<forall>u p. \<not> download_ok offline_env u p"
    by (simp add: download_ok_def offline_env_def)
  show "\<exists>w1 evs.
      create_directory_if_not_exists offline_env (path_join ''out'' (''Doc1'' @ ''_attachments''))
        ?w0 = Return () w1
      \<and> path_join ''out'' (''Doc1'' @ ''_attachments'') \<in> dirs w1
      \<and> world_of (process_thread offline_env (JStr ''T1'') ''out'' empty_world) = replay evs w1
      \<and> written_paths evs = []
      \<and> path_join ''out'' (''Doc1'' @ ''_attachments'')
          \<in> dirs (world_of (process_thread offline_env (JStr ''T1'') ''out'' empty_world))"
    using attachments_directory_first [OF fetched no_error title exported blobs permitted free]
      offline
    by blast
next
  let ?kvs = "[(''thread'', JDict [(''title'', JStr ''Memo'')]),
               (''html'', JStr ''<p>memo</p>''),
               (''blobs'', JList [JDict [(''name'', JStr ''a.png'')], JDict []])]"
  let ?w0 = "replay
          [Requests_get (Export_docx_url (base_url demo_env) (JStr ''T4'')),
           Print (Failed_to_download_DOCX ''Memo'' 500),
           File_written (path_join ''out'' (''Memo'' @ ''.html'')) ''<p>memo</p>'',
           Print (Extracted_HTML_instead (path_join ''out'' (''Memo'' @ ''.html'')))]
          empty_world"
  have fetched: "get_thread demo_env (JStr ''T4'') = Inr (JDict ?kvs)"
    by (simp add: demo_env_def demo_thread_def)
  have no_error: "map_of ?kvs ''error'' = None"
    by simp
  have title: "thread_title_of (JDict ?kvs) = Inr ''Memo''"
    by (simp add: thread_title_of_def sanitize_filename_def reserved_chars_def)
  have answered: "requests_get demo_env (Export_docx_url (base_url demo_env) (JStr ''T4''))
      (Some (access_token demo_env)) = Inr \<lparr>status_code = 500, content = []\<rparr>"
    by (simp add: demo_env_def demo_requests_def)
  have permitted: "os_error demo_env p = None" for p
    by (simp add: demo_env_def)
  have console: "console_error demo_env m = None" for m
    by (simp add: demo_env_def)
  have exported: "export_document demo_env (JStr ''T4'') (JDict ?kvs) ''Memo'' ''out'' empty_world
      = Return () ?w0"
    using export_document_fallback_returns [OF answered, of ?kvs "''<p>memo</p>''" "''out''"
        "''Memo''" empty_world] permitted console
    by simp
  have blobs: "map_of ?kvs ''blobs'' = Some (JList [JDict [(''name'', JStr ''a.png'')], JDict []])"
    "[JDict [(''name'', JStr ''a.png'')], JDict []] \<noteq> []"
    by simp_all
  have free: "path_join ''out'' (''Memo'' @ ''_attachments'') \<notin> dom (files ?w0)"
    by (simp add: replay_def emit_def empty_world_def path_join_def)
  have no_urls: "\<forall>b \<in> set [JDict [(''name'', JStr ''a.png'')], JDict []]. lacks_url b"
    by (simp add: lacks_url_def)
  show "\<exists>w1. process_thread demo_env (JStr ''T4'') ''out'' empty_world = Return () w1
         \<and> path_join ''out'' (''Memo'' @ ''_attachments'') \<in> dirs w1"
    using attachments_directory_first [OF fetched no_error title exported blobs permitted free]
      no_urls
    by blast
qed

section \<open>One directory per folder, one export file per document\<close>

lemma replay_inj: "replay evs w = replay evs' w \<Longrightarrow> evs = evs'"
proof -
  assume "replay evs w = replay evs' w"
  then have "trace (replay evs w) = trace (replay evs' w)" by simp
  then show ?thesis by simp
qed

lemma dom_files_replay: "dom (files (replay evs w)) = dom (files w) \<union> set (written_paths evs)"
proof (induction evs arbitrary: w)
  case Nil
  show ?case by simp
next
  case (Cons ev evs)
  have "replay (ev # evs) w = replay evs (emit ev w)"
    by (simp add: replay_def)
  moreover have "dom (files (emit ev w)) = dom (files w) \<union> set (written_paths [ev])"
    by (cases ev) (auto simp: emit_def)
  moreover have "set (written_paths (ev # evs)) = set (written_paths [ev]) \<union> set (written_paths evs)"
    by (cases ev) auto
  ultimately show ?case
    using Cons.IH [of "emit ev w"] by auto
qed

lemma path_exists_replay:
  "path_exists (replay evs w) p
     = (path_exists w p \<or> p \<in> set (made_dirs evs) \<or> p \<in> set (written_paths evs))"
  using dom_files_replay [of evs w] dirs_replay [of evs w]
  by (auto simp: path_exists_def)

text \<open>What the export step has done when it returns.\<close>

lemma export_document_events:
  assumes "export_document E thread_id (JDict kvs) t cp w = Return () w0"
    and "requests_get E (Export_docx_url (base_url E) thread_id) (Some (access_token E)) = Inr resp"
  shows "\<exists>evs. w0 = replay evs w \<and> made_dirs evs = [] \<and> blob_requests evs = []
           \<and> written_paths evs =
               (if status_code resp = 200 then [path_join cp (t @ ''.docx'')]
                else if py_truthy (case map_of kvs ''html'' of None \<Rightarrow> JNull | Some h \<Rightarrow> h)
                  then [path_join cp (t @ ''.html'')]
                else [])"
proof (cases "status_code resp = 200")
  case True
  with assms have "w0 = replay
      [Requests_get (Export_docx_url (base_url E) thread_id),
       File_written (path_join cp (t @ ''.docx'')) (content resp),
       Print (Extracted_DOCX (path_join cp (t @ ''.docx'')))] w"
    by (auto simp: export_document_def Let_def write_file_def print_def printed_def replay_def
        split: option.splits)
  with True show ?thesis
    by (intro exI [of _ "[Requests_get (Export_docx_url (base_url E) thread_id),
       File_written (path_join cp (t @ ''.docx'')) (content resp),
       Print (Extracted_DOCX (path_join cp (t @ ''.docx'')))]"]) simp
next
  case False
  let ?h = "case map_of kvs ''html'' of None \<Rightarrow> JNull | Some h \<Rightarrow> h"
  have get: "py_get (JDict kvs) ''html'' JNull = Inr ?h"
    by (simp split: option.splits)
  show ?thesis
  proof (cases "py_truthy ?h")
    case no_markup: False
    with assms False get have "w0 = replay
        [Requests_get (Export_docx_url (base_url E) thread_id),
         Print (Failed_to_download_DOCX t (status_code resp))] w"
      by (auto simp: export_document_def Let_def print_def printed_def replay_def
          split: option.splits)
    with False no_markup show ?thesis
      by (intro exI [of _ "[Requests_get (Export_docx_url (base_url E) thread_id),
         Print (Failed_to_download_DOCX t (status_code resp))]"]) simp
  next
    case True
    with assms False get obtain s where "w0 = replay
        [Requests_get (Export_docx_url (base_url E) thread_id),
         Print (Failed_to_download_DOCX t (status_code resp)),
         File_written (path_join cp (t @ ''.html'')) s,
         Print (Extracted_HTML_instead (path_join cp (t @ ''.html'')))] w"
      by (auto simp: export_document_def Let_def write_file_def print_def printed_def replay_def
          split: option.splits json.splits)
    with False True show ?thesis
      by (intro exI [of _ "[Requests_get (Export_docx_url (base_url E) thread_id),
         Print (Failed_to_download_DOCX t (status_code resp)),
         File_written (path_join cp (t @ ''.html'')) s,
         Print (Extracted_HTML_instead (path_join cp (t @ ''.html'')))]"]) simp
  qed
qed

text \<open>What the attachments step does from the world the export step has left.\<close>

lemma download_attachments_result:
  assumes "CHR ''/'' \<notin> set t"
    and "os_error E (path_join cp (t @ ''_attachments'')) = None"
    and "path_join cp (t @ ''_attachments'') \<notin> dom (files w)"
  shows "\<exists>evs. world_of (download_attachments E (JDict kvs) t cp w) = replay evs w
     \<and> (\<forall>p \<in> set (written_paths evs). inside (path_join cp (t @ ''_attachments'')) p)
     \<and> made_dirs evs =
         (if py_truthy (case map_of kvs ''blobs'' of None \<Rightarrow> JList [] | Some b \<Rightarrow> b)
             \<and> \<not> path_exists w (path_join cp (t @ ''_attachments''))
          then [path_join cp (t @ ''_attachments'')] else [])
     \<and> (py_truthy (case map_of kvs ''blobs'' of None \<Rightarrow> JList [] | Some b \<Rightarrow> b)
          \<longrightarrow> path_join cp (t @ ''_attachments'') \<in> dirs (replay evs w))"
proof -
  let ?ap = "path_join cp (t @ ''_attachments'')"
  let ?b = "case map_of kvs ''blobs'' of None \<Rightarrow> JList [] | Some b \<Rightarrow> b"
  have get: "py_get (JDict kvs) ''blobs'' (JList []) = Inr ?b"
    by (simp split: option.splits)
  obtain evs where evs: "world_of (download_attachments E (JDict kvs) t cp w) = replay evs w"
      "list_all (attachment_event ?ap) evs"
    using download_attachments_events [OF assms(1)] by blast
  have in_dir: "\<forall>p \<in> set (written_paths evs). inside ?ap p"
    using evs(2) by (rule attachment_writes_inside)
  show ?thesis
  proof (cases "py_truthy ?b")
    case False
    with get have "world_of (download_attachments E (JDict kvs) t cp w) = replay [] w"
      by (simp add: download_attachments_def)
    with evs(1) have "evs = []"
      using replay_inj by metis
    with False evs(1) show ?thesis
      by (intro exI [of _ "[]"]) simp
  next
    case True
    obtain made where made: "create_directory_if_not_exists E ?ap w = Return () (replay made w)"
        "?ap \<in> dirs (replay made w)"
        "made_dirs made = (if path_exists w ?ap then [] else [?ap])"
      using create_directory_result [OF assms(2,3)] by blast
    have "\<exists>more. world_of (download_attachments E (JDict kvs) t cp w) = replay (made @ more) w
        \<and> made_dirs more = []"
    proof (cases "py_iter ?b")
      case (Inl e)
      with get True made(1)
      have "world_of (download_attachments E (JDict kvs) t cp w) = replay (made @ []) w"
        by (simp add: download_attachments_def Let_def)
      then show ?thesis
        by (intro exI [of _ "[]"]) simp
    next
      case (Inr bs)
      obtain more where more: "world_of (download_blobs E ?ap bs (replay made w))
            = replay more (replay made w)" "made_dirs more = []"
        using download_blobs_result by blast
      with get True made(1) Inr
      have "world_of (download_attachments E (JDict kvs) t cp w) = replay (made @ more) w"
        by (simp add: download_attachments_def Let_def)
      with more(2) show ?thesis by blast
    qed
    then obtain more where more:
      "world_of (download_attachments E (JDict kvs) t cp w) = replay (made @ more) w"
      "made_dirs more = []"
      by blast
    have same: "evs = made @ more"
      using evs(1) more(1) replay_inj by metis
    have "made_dirs evs = (if path_exists w ?ap then [] else [?ap])"
      using same made(3) more(2) by simp
    moreover have "?ap \<in> dirs (replay evs w)"
      using same made(2) by (simp add: dirs_replay)
    ultimately show ?thesis
      using True evs(1) in_dir by (intro exI [of _ evs]) simp
  qed
qed

lemma path_exists_printed [simp]: "path_exists (printed m w) p = path_exists w p"
  by (simp add: path_exists_def)

lemma open_folder_result:
  assumes "open_folder E folder_id base_path depth w = Return (Some (title, current_path, children)) w'"
  shows "\<exists>evs. w' = replay evs w \<and> current_path = path_join base_path title
           \<and> made_dirs evs = (if path_exists w current_path then [] else [current_path])
           \<and> written_paths evs = [] \<and> path_exists w' current_path"
proof -
  from assms obtain folder w2 where
    cp: "current_path = path_join base_path title" and
    made: "create_directory_if_not_exists E current_path (printed (DEBUG_Folder_structure folder) w)
        = Return () w2" and
    w': "w' = printed (Found_in title (length children)) (printed (Processing_folder depth title) w2)"
    by (auto simp: open_folder_def Let_def print_def
        split: sum.splits bool.splits outcome.splits option.splits)
  show ?thesis
  proof (cases "path_exists w current_path")
    case True
    with made have "w2 = printed (DEBUG_Folder_structure folder) w"
      by (simp add: create_directory_if_not_exists_def)
    with w' have "w' = replay [Print (DEBUG_Folder_structure folder),
        Print (Processing_folder depth title), Print (Found_in title (length children))] w"
      by (simp add: replay_def printed_def)
    with True cp show ?thesis
      by (intro exI [of _ "[Print (DEBUG_Folder_structure folder),
        Print (Processing_folder depth title), Print (Found_in title (length children))]"])
        (simp add: path_exists_replay)
  next
    case False
    with made have "w2 = emit (Makedirs current_path) (printed (DEBUG_Folder_structure folder) w)"
      by (auto simp: create_directory_if_not_exists_def makedirs_def split: option.splits)
    with w' have "w' = replay [Print (DEBUG_Folder_structure folder), Makedirs current_path,
        Print (Processing_folder depth title), Print (Found_in title (length children))] w"
      by (simp add: replay_def printed_def)
    with False cp show ?thesis
      by (intro exI [of _ "[Print (DEBUG_Folder_structure folder), Makedirs current_path,
        Print (Processing_folder depth title), Print (Found_in title (length children))]"])
        (simp add: path_exists_replay)
  qed
qed

lemma process_thread_result:
  assumes "get_thread E thread_id = Inr (JDict kvs)" and "map_of kvs ''error'' = None"
    and "thread_title_of (JDict kvs) = Inr t"
    and "requests_get E (Export_docx_url (base_url E) thread_id) (Some (access_token E)) = Inr resp"
    and "export_document E thread_id (JDict kvs) t cp v = Return () v0"
    and "os_error E (path_join cp (t @ ''_attachments'')) = None"
    and "path_join cp (t @ ''_attachments'') \<notin> dom (files v)"
  shows "\<exists>evs. world_of (process_thread E thread_id cp v) = replay evs v
     \<and> filter (\<lambda>p. \<not> inside (path_join cp (t @ ''_attachments'')) p) (written_paths evs) =
         (if status_code resp = 200 then [path_join cp (t @ ''.docx'')]
          else if py_truthy (case map_of kvs ''html'' of None \<Rightarrow> JNull | Some h \<Rightarrow> h)
            then [path_join cp (t @ ''.html'')]
          else [])
     \<and> made_dirs evs =
         (if py_truthy (case map_of kvs ''blobs'' of None \<Rightarrow> JList [] | Some b \<Rightarrow> b)
             \<and> \<not> path_exists v (path_join cp (t @ ''_attachments''))
          then [path_join cp (t @ ''_attachments'')] else [])
     \<and> (py_truthy (case map_of kvs ''blobs'' of None \<Rightarrow> JList [] | Some b \<Rightarrow> b)
          \<longrightarrow> path_join cp (t @ ''_attachments'') \<in> dirs (world_of (process_thread E thread_id cp v)))"
proof -
  let ?ap = "path_join cp (t @ ''_attachments'')"
  let ?docx = "path_join cp (t @ ''.docx'')"
  let ?html = "path_join cp (t @ ''.html'')"
  let ?b = "case map_of kvs ''blobs'' of None \<Rightarrow> JList [] | Some b \<Rightarrow> b"
  let ?files = "if status_code resp = 200 then [?docx]
      else if py_truthy (case map_of kvs ''html'' of None \<Rightarrow> JNull | Some h \<Rightarrow> h) then [?html]
      else []"
  have slash: "CHR ''/'' \<notin> set t"
    using assms(3) by (rule thread_title_no_slash)
  obtain ex where ex: "v0 = replay ex v" "made_dirs ex = []" "written_paths ex = ?files"
    using export_document_events [OF assms(5,4)] by blast
  have outside: "\<not> inside ?ap ?docx" "\<not> inside ?ap ?html"
    using slash by (simp_all add: export_not_inside_attachments)
  have other: "?ap \<noteq> ?docx" "?ap \<noteq> ?html"
    using slash by (simp_all add: path_join_ext)
  then have fresh: "?ap \<notin> set (written_paths ex)"
    using ex(3) by simp
  have free: "?ap \<notin> dom (files v0)"
    using assms(7) fresh ex(1) by (simp add: dom_files_replay)
  have exists: "path_exists v0 ?ap = path_exists v ?ap"
    using fresh ex(1,2) by (simp add: path_exists_replay)
  obtain att where att: "world_of (download_attachments E (JDict kvs) t cp v0) = replay att v0"
      "\<forall>p \<in> set (written_paths att). inside ?ap p"
      "made_dirs att = (if py_truthy ?b \<and> \<not> path_exists v0 ?ap then [?ap] else [])"
      "py_truthy ?b \<longrightarrow> ?ap \<in> dirs (replay att v0)"
    using download_attachments_result [OF slash assms(6) free, of kvs] by blast
  have body: "process_thread_try E thread_id cp v = download_attachments E (JDict kvs) t cp v0"
    using assms(1,2,3,5) by (simp add: process_thread_try_def)
  have "\<exists>said. world_of (process_thread E thread_id cp v) = replay (att @ said) v0
      \<and> made_dirs said = [] \<and> written_paths said = []"
  proof (cases "download_attachments E (JDict kvs) t cp v0")
    case (Return u w2)
    with body att(1) have "world_of (process_thread E thread_id cp v) = replay (att @ []) v0"
      by (simp add: process_thread_def)
    then show ?thesis
      by (intro exI [of _ "[]"]) simp
  next
    case (Raise e w2)
    obtain said where said:
      "world_of (print E (Error_processing_document thread_id e) w2) = replay said w2"
      "written_paths said = []" "made_dirs said = []"
      using print_world by blast
    from Raise body att(1) said(1)
    have "world_of (process_thread E thread_id cp v) = replay (att @ said) v0"
      by (simp add: process_thread_def)
    with said(2,3) show ?thesis
      by blast
  qed
  then obtain said where said: "world_of (process_thread E thread_id cp v) = replay (att @ said) v0"
      "made_dirs said = []" "written_paths said = []"
    by blast
  have whole: "world_of (process_thread E thread_id cp v) = replay (ex @ att @ said) v"
    using said(1) ex(1) by simp
  have "filter (\<lambda>p. \<not> inside ?ap p) (written_paths att) = []"
    using att(2) by (simp add: filter_empty_conv)
  moreover have "filter (\<lambda>p. \<not> inside ?ap p) ?files = ?files"
    using outside by simp
  ultimately have kept: "filter (\<lambda>p. \<not> inside ?ap p) (written_paths (ex @ att @ said)) = ?files"
    using ex(3) said(3) by simp
  have dirs_made: "made_dirs (ex @ att @ said)
      = (if py_truthy ?b \<and> \<not> path_exists v ?ap then [?ap] else [])"
    using ex(2) att(3) said(2) exists by simp
  have there: "py_truthy ?b \<longrightarrow> ?ap \<in> dirs (world_of (process_thread E thread_id cp v))"
    using att(4) said(1) by (simp add: dirs_replay)
  show ?thesis
    using whole kept dirs_made there by (intro exI [of _ "ex @ att @ said"]) simp
qed

text \<open>
  C4, as the code has it. A folder fetched without error gets one directory: the walk
  makes \<open>base_path/title\<close> unless something of that name exists already, makes no other
  directory and writes no file before it turns to the children. A document fetched
  without error whose export step raises nothing gets one export file, \<open>title.docx\<close>
  when the export is answered with status 200 and \<open>title.html\<close> when it is not and
  there is fallback markup, and no export file when there is neither. Its attachments
  directory \<open>title_attachments\<close> is made if and only if the \<open>blobs\<close> value is non-empty
  (and the directory is not there yet); no other directory is made for it.
\<close>

theorem one_directory_one_export_file:
  "(open_folder E folder_id base_path depth w
      = Return (Some (title, current_path, children)) w' \<longrightarrow>
      (\<exists>evs. w' = replay evs w \<and> current_path = path_join base_path title
         \<and> made_dirs evs = (if path_exists w current_path then [] else [current_path])
         \<and> written_paths evs = [] \<and> path_exists w' current_path))
   \<and> (get_thread E thread_id = Inr (JDict kvs) \<and> map_of kvs ''error'' = None
        \<and> thread_title_of (JDict kvs) = Inr t
        \<and> requests_get E (Export_docx_url (base_url E) thread_id) (Some (access_token E)) = Inr resp
        \<and> export_document E thread_id (JDict kvs) t cp v = Return () v0
        \<and> os_error E (path_join cp (t @ ''_attachments'')) = None
        \<and> path_join cp (t @ ''_attachments'') \<notin> dom (files v) \<longrightarrow>
      (\<exists>evs. world_of (process_thread E thread_id cp v) = replay evs v
         \<and> filter (\<lambda>p. \<not> inside (path_join cp (t @ ''_attachments'')) p) (written_paths evs) =
             (if status_code resp = 200 then [path_join cp (t @ ''.docx'')]
              else if py_truthy (case map_of kvs ''html'' of None \<Rightarrow> JNull | Some h \<Rightarrow> h)
                then [path_join cp (t @ ''.html'')]
              else [])
         \<and> made_dirs evs =
             (if py_truthy (case map_of kvs ''blobs'' of None \<Rightarrow> JList [] | Some b \<Rightarrow> b)
                 \<and> \<not> path_exists v (path_join cp (t @ ''_attachments''))
              then [path_join cp (t @ ''_attachments'')] else [])
         \<and> (py_truthy (case map_of kvs ''blobs'' of None \<Rightarrow> JList [] | Some b \<Rightarrow> b)
              \<longrightarrow> path_join cp (t @ ''_attachments'')
                    \<in> dirs (world_of (process_thread E thread_id cp v)))))"
  using open_folder_result [of E folder_id base_path depth w title current_path children w']
    process_thread_result [of E thread_id kvs t resp cp v v0]
  by blast

theorem one_directory_one_export_file_witness:
  "(\<exists>w' evs. open_folder demo_env (JStr ''F'') ''out'' 0 empty_world
        = Return (Some (''Top'', path_join ''out'' ''Top'',
            [JDict [(''thread_id'', JStr ''T2'')], JDict [(''folder_id'', JStr ''G'')], JDict [],
             JDict [(''thread_id'', JStr ''T1'')], JDict [(''thread_id'', JStr ''T3'')]])) w'
      \<and> w' = replay evs empty_world
      \<and> made_dirs evs = [path_join ''out'' ''Top''])
   \<and> (\<exists>evs. world_of (process_thread demo_env (JStr ''T1'') ''out'' empty_world)
        = replay evs empty_world
      \<and> filter (\<lambda>p. \<not> inside (path_join ''out'' (''Doc1'' @ ''_attachments'')) p)
          (written_paths evs) = [path_join ''out'' (''Doc1'' @ ''.html'')]
      \<and> made_dirs evs = [path_join ''out'' (''Doc1'' @ ''_attachments'')])"
proof
  let ?cs = "[JDict [(''thread_id'', JStr ''T2'')], JDict [(''folder_id'', JStr ''G'')], JDict [],
             JDict [(''thread_id'', JStr ''T1'')], JDict [(''thread_id'', JStr ''T3'')]]"
  have "\<exists>w'. open_folder demo_env (JStr ''F'') ''out'' 0 empty_world
      = Return (Some (''Top'', path_join ''out'' ''Top'', ?cs)) w'"
    by (simp add: open_folder_def demo_env_def demo_folder_def folder_title_of_def
        children_of_def sanitize_filename_def reserved_chars_def
        create_directory_if_not_exists_def makedirs_def path_exists_def empty_world_def
        print_def printed_def emit_def Let_def)
  then obtain w' where opened: "open_folder demo_env (JStr ''F'') ''out'' 0 empty_world
      = Return (Some (''Top'', path_join ''out'' ''Top'', ?cs)) w'"
    by blast
  have fresh: "\<not> path_exists empty_world (path_join ''out'' ''Top'')"
    by (simp add: path_exists_def empty_world_def)
  show "\<exists>w' evs. open_folder demo_env (JStr ''F'') ''out'' 0 empty_world
        = Return (Some (''Top'', path_join ''out'' ''Top'', ?cs)) w'
      \<and> w' = replay evs empty_world
      \<and> made_dirs evs = [path_join ''out'' ''Top'']"
    using one_directory_one_export_file [THEN conjunct1, rule_format, OF opened] opened fresh
    by auto
next
  let ?kvs = "[(''thread'', JDict [(''title'', JStr ''Doc:1'')]),
               (''html'', JStr ''<p>hi</p>''),
               (''blobs'', JList [JDict [(''name'', JStr ''a.png'')],
                                  JDict [(''url'', JStr ''u1''), (''name'', JStr ''b.png'')]])]"
  let ?v0 = "replay
          [Requests_get (Export_docx_url (base_url demo_env) (JStr ''T1'')),
           Print (Failed_to_download_DOCX ''Doc1'' 500),
           File_written (path_join ''out'' (''Doc1'' @ ''.html'')) ''<p>hi</p>'',
           Print (Extracted_HTML_instead (path_join ''out'' (''Doc1'' @ ''.html'')))]
          empty_world"
  have fetched: "get_thread demo_env (JStr ''T1'') = Inr (JDict ?kvs)"
    by (simp add: demo_env_def demo_thread_def)
  have no_error: "map_of ?kvs ''error'' = None"
    by simp
  have title: "thread_title_of (JDict ?kvs) = Inr ''Doc1''"
    by (simp add: thread_title_of_def sanitize_filename_def reserved_chars_def)
  have answered: "requests_get demo_env (Export_docx_url (base_url demo_env) (JStr ''T1''))
      (Some (access_token demo_env)) = Inr \<lparr>status_code = 500, content = []\<rparr>"
    by (simp add: demo_env_def demo_requests_def)
  have permitted: "os_error demo_env p = None" for p
    by (simp add: demo_env_def)
  have console: "console_error demo_env m = None" for m
    by (simp add: demo_env_def)
  have exported: "export_document demo_env (JStr ''T1'') (JDict ?kvs) ''Doc1'' ''out'' empty_world
      = Return () ?v0"
    using export_document_fallback_returns [OF answered, of ?kvs "''<p>hi</p>''" "''out''"
        "''Doc1''" empty_world] permitted console
    by simp
  have free: "path_join ''out'' (''Doc1'' @ ''_attachments'') \<notin> dom (files empty_world)"
    by (simp add: empty_world_def)
  have fresh: "\<not> path_exists empty_world (path_join ''out'' (''Doc1'' @ ''_attachments''))"
    by (simp add: path_exists_def empty_world_def)
  have "\<exists>evs. world_of (process_thread demo_env (JStr ''T1'') ''out'' empty_world)
        = replay evs empty_world
      \<and> filter (\<lambda>p. \<not> inside (path_join ''out'' (''Doc1'' @ ''_attachments'')) p)
          (written_paths evs) =
          (if status_code \<lparr>status_code = 500, content = []\<rparr> = 200
             then [path_join ''out'' (''Doc1'' @ ''.docx'')]
           else if py_truthy (case map_of ?kvs ''html'' of None \<Rightarrow> JNull | Some h \<Rightarrow> h)
             then [path_join ''out'' (''Doc1'' @ ''.html'')]
           else [])
      \<and> made_dirs evs =
          (if py_truthy (case map_of ?kvs ''blobs'' of None \<Rightarrow> JList [] | Some b \<Rightarrow> b)
              \<and> \<not> path_exists empty_world (path_join ''out'' (''Doc1'' @ ''_attachments''))
           then [path_join ''out'' (''Doc1'' @ ''_attachments'')] else [])"
    using one_directory_one_export_file [of demo_env _ _ _ _ _ _ _ _ "JStr ''T1''" ?kvs
        "''Doc1''" "\<lparr>status_code = 500, content = []\<rparr>" "''out''" empty_world ?v0]
      fetched no_error title answered exported permitted free
    by blast
  then show "\<exists>evs. world_of (process_thread demo_env (JStr ''T1'') ''out'' empty_world)
        = replay evs empty_world
      \<and> filter (\<lambda>p. \<not> inside (path_join ''out'' (''Doc1'' @ ''_attachments'')) p)
          (written_paths evs) = [path_join ''out'' (''Doc1'' @ ''.html'')]
      \<and> made_dirs evs = [path_join ''out'' (''Doc1'' @ ''_attachments'')]"
    using fresh by simp
qed

text \<open>
  C4, as the claim has it, fails: document \<open>T3\<close> is fetched without error, its DOCX
  export is answered with status 500 and it has no fallback markup, so its export sends
  one request, prints one line and writes no file.
\<close>

theorem document_without_export_file:
  "get_thread demo_env (JStr ''T3'') = Inr (JDict [(''thread'', JDict [(''title'', JStr ''Notes'')])])
   \<and> process_thread demo_env (JStr ''T3'') ''out'' empty_world
       = Return () (replay
           [Requests_get (Export_docx_url ''https://platform.host'' (JStr ''T3'')),
            Print (Failed_to_download_DOCX ''Notes'' 500)] empty_world)
   \<and> written_paths
        [Requests_get (Export_docx_url ''https://platform.host'' (JStr ''T3'')),
         Print (Failed_to_download_DOCX ''Notes'' 500)] = []"
  by (simp add: demo_env_def demo_thread_def demo_requests_def process_thread_def
      process_thread_try_def thread_title_of_def sanitize_filename_def reserved_chars_def
      export_document_def download_attachments_def Let_def print_def printed_def replay_def
      odd_id_def)

section \<open>Running the export twice\<close>

lemma sim_out_simps [simp]:
  "sim_out E W V (Return x a) (Return y b) = (x = y \<and> sim E W V a b)"
  "sim_out E W V (Raise e a) (Raise e' b) = (e = e' \<and> sim E W V a b)"
  "sim_out E W V (Return x a) (Raise e' b) = False"
  "sim_out E W V (Raise e a) (Return y b) = False"
  by (simp_all add: sim_out_def)

lemma sim_emit_quiet:
  assumes "made_dirs [ev] = []" and "written_paths [ev] = []" and "sim E W V a b"
  shows "sim E W V (emit ev a) (emit ev b)"
proof -
  have "files (emit ev a) = files a" "dirs (emit ev a) = dirs a"
    "files (emit ev b) = files b" "dirs (emit ev b) = dirs b"
    using assms(1,2) by (cases ev; simp add: emit_def)+
  then show ?thesis
    using assms(3) by (simp add: sim_def path_exists_def)
qed

lemma sim_printed: "sim E W V a b \<Longrightarrow> sim E W V (printed m a) (printed m b)"
  unfolding printed_def by (rule sim_emit_quiet) simp_all

lemma sim_print: "sim E W V a b \<Longrightarrow> sim_out E W V (print E m a) (print E m b)"
  by (simp add: print_def sim_printed split: option.splits)

lemma sim_request:
  "sim E W V a b \<Longrightarrow> sim E W V (emit (Requests_get u) a) (emit (Requests_get u) b)"
  by (rule sim_emit_quiet) simp_all

lemma sim_sleep: "sim E W V a b \<Longrightarrow> sim E W V (emit (Sleep d) a) (emit (Sleep d) b)"
  by (rule sim_emit_quiet) simp_all

lemma sim_write:
  assumes "os_error E p = None" and "sim E W V a b"
  shows "sim E W V (emit (File_written p s) a) (emit (File_written p s) b)"
proof -
  from assms(2) obtain M where M: "files a = files W ++ M" "files b = files V ++ M"
    by (auto simp: sim_def)
  have "files (emit (File_written p s) a) = files W ++ M(p \<mapsto> s)"
    "files (emit (File_written p s) b) = files V ++ M(p \<mapsto> s)"
    using M by (simp_all add: emit_def)
  then have "\<exists>M'. files (emit (File_written p s) a) = files W ++ M'
      \<and> files (emit (File_written p s) b) = files V ++ M'"
    by blast
  moreover have "dirs (emit (File_written p s) a) = dirs a"
    "dirs (emit (File_written p s) b) = dirs b"
    by (simp_all add: emit_def)
  moreover have "path_exists (emit (File_written p s) a) q = (path_exists a q \<or> q = p)"
    "path_exists (emit (File_written p s) b) q = (path_exists b q \<or> q = p)" for q
    by (auto simp: emit_def path_exists_def)
  ultimately show ?thesis
    using assms unfolding sim_def by auto
qed

lemma sim_mkdir_both:
  assumes "os_error E p = None" and "sim E W V a b"
  shows "sim E W V (emit (Makedirs p) a) (emit (Makedirs p) b)"
proof -
  have "files (emit (Makedirs p) a) = files a" "files (emit (Makedirs p) b) = files b"
    "dirs (emit (Makedirs p) a) = insert p (dirs a)"
    "dirs (emit (Makedirs p) b) = insert p (dirs b)"
    by (simp_all add: emit_def)
  moreover have "path_exists (emit (Makedirs p) a) q = (path_exists a q \<or> q = p)"
    "path_exists (emit (Makedirs p) b) q = (path_exists b q \<or> q = p)" for q
    by (auto simp: emit_def path_exists_def)
  ultimately show ?thesis
    using assms unfolding sim_def by auto
qed

lemma sim_mkdir_left:
  assumes "os_error E p = None" and "path_exists b p" and "sim E W V a b"
  shows "sim E W V (emit (Makedirs p) a) b"
proof -
  have "files (emit (Makedirs p) a) = files a"
    "dirs (emit (Makedirs p) a) = insert p (dirs a)"
    by (simp_all add: emit_def)
  moreover have "path_exists (emit (Makedirs p) a) q = (path_exists a q \<or> q = p)" for q
    by (auto simp: emit_def path_exists_def)
  ultimately show ?thesis
    using assms unfolding sim_def by auto
qed

lemma sim_case_outcome:
  assumes "sim_out E W V r r'"
    and "\<And>x a b. sim E W V a b \<Longrightarrow> sim_out E W V (k x a) (k x b)"
    and "\<And>e a b. sim E W V a b \<Longrightarrow> sim_out E W V (h e a) (h e b)"
  shows "sim_out E W V (case r of Return x a \<Rightarrow> k x a | Raise e a \<Rightarrow> h e a)
           (case r' of Return x b \<Rightarrow> k x b | Raise e b \<Rightarrow> h e b)"
  using assms by (cases r; cases r') simp_all

lemma write_file_sim:
  "sim E W V a b \<Longrightarrow> sim_out E W V (write_file E p x a) (write_file E p x b)"
  by (auto simp: write_file_def split: option.splits json.splits intro!: sim_write)

lemma create_directory_sim:
  assumes "sim E W V a b"
  shows "sim_out E W V (create_directory_if_not_exists E p a)
           (create_directory_if_not_exists E p b)"
proof (cases "path_exists a p")
  case True
  with assms have "path_exists b p" by (simp add: sim_def)
  with True assms show ?thesis
    by (simp add: create_directory_if_not_exists_def)
next
  case False
  show ?thesis
  proof (cases "os_error E p")
    case None
    with False assms show ?thesis
      by (auto simp: create_directory_if_not_exists_def makedirs_def
          intro: sim_mkdir_both sim_mkdir_left)
  next
    case (Some e)
    with False assms have "\<not> path_exists b p"
      by (auto simp: sim_def)
    with False Some assms show ?thesis
      by (simp add: create_directory_if_not_exists_def makedirs_def)
  qed
qed

lemma download_blob_try_sim:
  "sim E W V a b \<Longrightarrow> sim_out E W V (download_blob_try E u p a) (download_blob_try E u p b)"
  by (auto simp: download_blob_try_def Let_def split: sum.splits
      intro!: sim_case_outcome sim_request write_file_sim)

lemma download_blob_sim:
  "sim E W V a b \<Longrightarrow> sim_out E W V (download_blob E u p a) (download_blob E u p b)"
  by (auto simp: download_blob_def intro!: sim_case_outcome sim_print download_blob_try_sim)

lemma download_blobs_sim:
  "sim E W V a b \<Longrightarrow> sim_out E W V (download_blobs E ap bs a) (download_blobs E ap bs b)"
proof (induction bs arbitrary: a b)
  case Nil
  then show ?case by simp
next
  case (Cons blob rest)
  have step: "sim_out E W V (download_blobs E ap rest a') (download_blobs E ap rest b')"
    if "sim E W V a' b'" for a' b'
    using that by (rule Cons.IH)
  show ?case
    using Cons.prems
    by (auto simp: Let_def split: sum.splits
        intro!: sim_case_outcome sim_print download_blob_sim step)
qed

lemma export_document_sim:
  "sim E W V a b \<Longrightarrow>
     sim_out E W V (export_document E i td t cp a) (export_document E i td t cp b)"
  by (auto simp: export_document_def Let_def split: sum.splits
      intro!: sim_case_outcome sim_print sim_request write_file_sim)

lemma download_attachments_sim:
  "sim E W V a b \<Longrightarrow>
     sim_out E W V (download_attachments E td t cp a) (download_attachments E td t cp b)"
  by (auto simp: download_attachments_def Let_def split: sum.splits
      intro!: sim_case_outcome create_directory_sim download_blobs_sim)

lemma process_thread_try_sim:
  "sim E W V a b \<Longrightarrow>
     sim_out E W V (process_thread_try E i cp a) (process_thread_try E i cp b)"
  by (auto simp: process_thread_try_def split: sum.splits bool.splits
      intro!: sim_case_outcome sim_print export_document_sim download_attachments_sim)

lemma process_thread_sim:
  "sim E W V a b \<Longrightarrow> sim_out E W V (process_thread E i cp a) (process_thread E i cp b)"
  by (auto simp: process_thread_def intro!: sim_case_outcome sim_print process_thread_try_sim)

lemma open_folder_sim:
  "sim E W V a b \<Longrightarrow>
     sim_out E W V (open_folder E i bp depth a) (open_folder E i bp depth b)"
  by (auto simp: open_folder_def Let_def split: sum.splits bool.splits
      intro!: sim_case_outcome sim_print create_directory_sim)

text \<open>The loop and the walk, by induction on the children and on the room on the stack.\<close>

lemma children_sim:
  assumes sub: "\<And>folder_id base_path d a b.
      sim E W V a b \<Longrightarrow>
        sim_out E W V (process_folder n E folder_id base_path d a)
          (process_folder n E folder_id base_path d b)"
  shows "sim E W V a b \<Longrightarrow>
     sim_out E W V (process_children n E cp depth tot k children a)
       (process_children n E cp depth tot k children b)"
proof (induction children arbitrary: k a b)
  case Nil
  then show ?case by simp
next
  case (Cons child rest)
  have rest: "sim_out E W V (process_children n E cp depth tot k' rest a')
      (process_children n E cp depth tot k' rest b')"
    if "sim E W V a' b'" for a' b' k'
    using that by (rule Cons.IH)
  show ?case
    using Cons.prems
    by (auto split: sum.splits bool.splits
        intro!: sim_case_outcome sim_print process_thread_sim sub rest sim_sleep)
qed

lemma process_folder_sim:
  "sim E W V a b \<Longrightarrow>
     sim_out E W V (process_folder n E folder_id base_path depth a)
       (process_folder n E folder_id base_path depth b)"
proof (induction n arbitrary: folder_id base_path depth a b)
  case 0
  then show ?case by simp
next
  case (Suc n)
  have loop: "sim_out E W V (process_children n E cp depth tot k cs a')
      (process_children n E cp depth tot k cs b')"
    if "sim E W V a' b'" for cp tot k cs a' b'
    using Suc.IH that by (rule children_sim)
  show ?case
    using Suc.prems
    by (auto simp: catch_folder_def split: option.splits prod.splits
        intro!: sim_case_outcome sim_print open_folder_sim loop)
qed

section \<open>The whole run\<close>

lemma main_world_simps [simp]:
  "main_world (Finished w) = w" "main_world (Exited c w) = w" "main_world (Crashed e w) = w"
  by (simp_all add: main_world_def)

text \<open>
  With a truthy id, an output directory that the system lets it make and a console that
  accepts every line, \<open>main\<close> finishes.
\<close>

lemma main_finishes:
  assumes "extract_id_from_link link = Inr (Some folder_id)" and "folder_id \<noteq> []"
    and "os_error E out_dir = None" and "\<forall>m. console_error E m = None"
  shows "\<exists>w'. main_from_link n E link out_dir w = Finished w'"
proof -
  let ?w2 = "printed (Files_will_be_saved_to out_dir) (printed (Starting_extraction folder_id) w)"
  have "\<exists>w3. create_directory_if_not_exists E out_dir ?w2 = Return () w3"
    using assms(3) by (simp add: create_directory_if_not_exists_def makedirs_def)
  then obtain w3 where w3: "create_directory_if_not_exists E out_dir ?w2 = Return () w3"
    by blast
  have "\<exists>w'. run_walk n E folder_id out_dir w3 = Finished w'"
    using assms(4) by (simp add: run_walk_def print_def split: outcome.splits)
  with assms w3 show ?thesis
    by (simp add: main_from_link_def id_truthy_def print_def)
qed

lemma allowed_paths:
  "list_all (allowed E d) evs \<Longrightarrow> p \<in> set (made_dirs evs) \<union> set (written_paths evs)
     \<Longrightarrow> os_error E p = None"
proof (induction evs)
  case Nil
  then show ?case by simp
next
  case (Cons ev evs)
  then show ?case
    by (cases ev) (auto simp: allowed_def)
qed

text \<open>The world a run ends in can start the second run.\<close>

lemma sim_start:
  assumes "reaches E d W V"
  shows "sim E W V W V"
proof -
  from assms obtain evs where evs: "V = replay evs W" "list_all (allowed E d) evs"
    by (auto simp: reaches_def via_def)
  have "\<exists>M. files W = files W ++ M \<and> files V = files V ++ M"
    by (intro exI [of _ Map.empty]) simp
  moreover have "\<forall>p. path_exists W p \<longrightarrow> path_exists V p"
    using evs(1) by (simp add: path_exists_replay)
  moreover have "\<forall>p. os_error E p \<noteq> None \<longrightarrow> path_exists V p \<longrightarrow> path_exists W p"
    using evs allowed_paths [OF evs(2)] by (auto simp: path_exists_replay)
  ultimately show ?thesis
    by (simp add: sim_def)
qed

text \<open>When the second run starts where the first has ended, it changes neither files nor directories.\<close>

lemma sim_end:
  assumes "sim E W w1 w1 w2"
  shows "files w2 = files w1 \<and> dirs w2 = dirs w1"
proof -
  from assms obtain M where "files w1 = files W ++ M" "files w2 = files w1 ++ M"
    by (auto simp: sim_def)
  then have "files w2 = files w1"
    by (metis map_add_assoc map_add_subsumed2 map_le_refl)
  moreover have "dirs w2 = dirs w1"
    using assms by (auto simp: sim_def)
  ultimately show ?thesis by simp
qed

lemma reaches_case_main:
  assumes "reaches E d w0 (world_of r)"
    and "\<And>x w'. reaches E d w0 w' \<Longrightarrow> reaches E d w0 (main_world (k x w'))"
    and "\<And>e w'. reaches E d w0 w' \<Longrightarrow> reaches E d w0 (main_world (h e w'))"
  shows "reaches E d w0 (main_world (case r of Return x w' \<Rightarrow> k x w' | Raise e w' \<Rightarrow> h e w'))"
  using assms by (cases r) simp_all

lemma main_reaches: "reaches E 0 w (main_world (main_from_link n E link out_dir w))"
  by (auto simp: main_from_link_def give_up_def run_walk_def
      split: sum.splits option.splits
      intro!: reaches_case_main reaches_case_outcome reaches_print create_directory_reaches
        process_folder_reaches)

lemma sim_main_simps [simp]:
  "sim_main E W V (Finished a) (Finished b) = sim E W V a b"
  "sim_main E W V (Exited c a) (Exited c' b) = (c = c' \<and> sim E W V a b)"
  "sim_main E W V (Crashed e a) (Crashed e' b) = (e = e' \<and> sim E W V a b)"
  by (simp_all add: sim_main_def same_end_def)

lemma sim_case_main:
  assumes "sim_out E W V r r'"
    and "\<And>x a b. sim E W V a b \<Longrightarrow> sim_main E W V (k x a) (k x b)"
    and "\<And>e a b. sim E W V a b \<Longrightarrow> sim_main E W V (h e a) (h e b)"
  shows "sim_main E W V (case r of Return x a \<Rightarrow> k x a | Raise e a \<Rightarrow> h e a)
           (case r' of Return x b \<Rightarrow> k x b | Raise e b \<Rightarrow> h e b)"
  using assms by (cases r; cases r') simp_all

lemma main_sim:
  "sim E W V a b \<Longrightarrow>
     sim_main E W V (main_from_link n E link out_dir a) (main_from_link n E link out_dir b)"
  by (auto simp: main_from_link_def give_up_def run_walk_def
      split: sum.splits option.splits
      intro!: sim_case_main sim_case_outcome sim_print create_directory_sim process_folder_sim)

text \<open>
  C8. The export is run, and then run again with the same link, the same output
  directory, the same remote store and the same console, in the world the first run has
  left. The second run ends in the same way, with the same files, byte for byte, and the
  same directories as the first: nothing is added, nothing renamed. A write replaces the
  file of the same path, and making a directory that has been made changes nothing.
\<close>

theorem export_twice_same_files:
  "(main_from_link n E link out_dir w = r \<longrightarrow>
      (\<exists>r'. main_from_link n E link out_dir (main_world r) = r' \<and> same_end r r'
         \<and> files (main_world r') = files (main_world r)
         \<and> dirs (main_world r') = dirs (main_world r)))
   \<and> files (emit (File_written p s) v) p = Some s
   \<and> (create_directory_if_not_exists E p v = Return () v1 \<longrightarrow>
        create_directory_if_not_exists E p v1 = Return () v1)"
proof (intro conjI impI)
  assume run: "main_from_link n E link out_dir w = r"
  have "reaches E 0 w (main_world (main_from_link n E link out_dir w))"
    by (rule main_reaches)
  with run have "reaches E 0 w (main_world r)"
    by simp
  then have "sim E w (main_world r) w (main_world r)"
    by (rule sim_start)
  then have "sim_main E w (main_world r) (main_from_link n E link out_dir w)
      (main_from_link n E link out_dir (main_world r))"
    by (rule main_sim)
  with run have both: "same_end r (main_from_link n E link out_dir (main_world r))"
    "sim E w (main_world r) (main_world r)
       (main_world (main_from_link n E link out_dir (main_world r)))"
    by (simp_all add: sim_main_def)
  from both(2)
  have "files (main_world (main_from_link n E link out_dir (main_world r))) = files (main_world r)
      \<and> dirs (main_world (main_from_link n E link out_dir (main_world r))) = dirs (main_world r)"
    by (rule sim_end)
  with both(1)
  show "\<exists>r'. main_from_link n E link out_dir (main_world r) = r' \<and> same_end r r'
         \<and> files (main_world r') = files (main_world r)
         \<and> dirs (main_world r') = dirs (main_world r)"
    by blast
next
  show "files (emit (File_written p s) v) p = Some s"
    by (simp add: emit_def)
next
  assume "create_directory_if_not_exists E p v = Return () v1"
  then show "create_directory_if_not_exists E p v1 = Return () v1"
    by (auto simp: create_directory_if_not_exists_def makedirs_def path_exists_def emit_def
        split: if_splits option.splits)
qed

theorem export_twice_same_files_witness:
  "\<exists>w1 w2. main_from_link 2 demo_env ''https://host/path/F'' ''out'' empty_world = Finished w1
     \<and> main_from_link 2 demo_env ''https://host/path/F'' ''out'' w1 = Finished w2
     \<and> files w2 = files w1 \<and> dirs w2 = dirs w1"
proof -
  have "os_error demo_env ''out'' = None" "\<forall>m. console_error demo_env m = None"
    by (simp_all add: demo_env_def)
  then obtain w1 where run: "main_from_link 2 demo_env ''https://host/path/F'' ''out'' empty_world
      = Finished w1"
    using main_finishes [OF demo_link_id] by blast
  obtain r' where r': "main_from_link 2 demo_env ''https://host/path/F'' ''out''
        (main_world (Finished w1)) = r'"
      "same_end (Finished w1) r'"
      "files (main_world r') = files (main_world (Finished w1))"
      "dirs (main_world r') = dirs (main_world (Finished w1))"
    using export_twice_same_files [THEN conjunct1, rule_format, OF run] by blast
  from r'(2) obtain w2 where "r' = Finished w2"
    by (cases r') (auto simp: same_end_def)
  with run r' show ?thesis
    by auto
qed

end
